theory Spec2Isabelle
  imports Complex_Main "HOL-Library.Word" "HOL-Library.Multiset"
begin

unbundle bit_operations_syntax

section \<open>Numbers of the source language\<close>

text \<open>
  The texture generator computes with JavaScript numbers, which are doubles. They are
  modelled as reals: rounding and the sign of zero are left out. The values a division
  by zero produces are kept: \<open>jsnum\<close> adds both infinities and NaN to the reals, and
  every division of the source whose divisor can be zero is a \<open>jdiv\<close>. Zero counts
  as positive zero. Where a number supplied by the caller enters the arithmetic (the
  strength of the normal map) the range of doubles is kept as well: see \<open>to_double\<close>
  below.
\<close>

datatype jsnum = Fin real | PInf | NInf | NaN

fun jneg :: "jsnum \<Rightarrow> jsnum" where
  "jneg (Fin a) = Fin (- a)"
| "jneg PInf = NInf"
| "jneg NInf = PInf"
| "jneg NaN = NaN"

fun jadd :: "jsnum \<Rightarrow> jsnum \<Rightarrow> jsnum" where
  "jadd (Fin a) (Fin b) = Fin (a + b)"
| "jadd NaN _ = NaN"
| "jadd _ NaN = NaN"
| "jadd PInf NInf = NaN"
| "jadd NInf PInf = NaN"
| "jadd PInf _ = PInf"
| "jadd _ PInf = PInf"
| "jadd NInf _ = NInf"
| "jadd _ NInf = NInf"

definition jsub :: "jsnum \<Rightarrow> jsnum \<Rightarrow> jsnum" where
  "jsub a b = jadd a (jneg b)"

fun jmul :: "jsnum \<Rightarrow> jsnum \<Rightarrow> jsnum" where
  "jmul (Fin a) (Fin b) = Fin (a * b)"
| "jmul NaN _ = NaN"
| "jmul _ NaN = NaN"
| "jmul (Fin a) b = (if a = 0 then NaN else if 0 < a then b else jneg b)"
| "jmul a (Fin b) = (if b = 0 then NaN else if 0 < b then a else jneg a)"
| "jmul PInf b = b"
| "jmul NInf b = jneg b"

fun jdiv :: "jsnum \<Rightarrow> jsnum \<Rightarrow> jsnum" where
  "jdiv (Fin a) (Fin b) =
     (if b = 0 then (if a = 0 then NaN else if 0 < a then PInf else NInf)
      else Fin (a / b))"
| "jdiv NaN _ = NaN"
| "jdiv _ NaN = NaN"
| "jdiv (Fin a) _ = Fin 0"
| "jdiv a (Fin b) = (if 0 \<le> b then a else jneg a)"
| "jdiv _ _ = NaN"

fun jsqrt :: "jsnum \<Rightarrow> jsnum" where
  "jsqrt (Fin a) = (if a < 0 then NaN else Fin (sqrt a))"
| "jsqrt PInf = PInf"
| "jsqrt NInf = NaN"
| "jsqrt NaN = NaN"

fun jlt :: "jsnum \<Rightarrow> jsnum \<Rightarrow> bool" where
  "jlt (Fin a) (Fin b) = (a < b)"
| "jlt NaN _ = False"
| "jlt _ NaN = False"
| "jlt _ NInf = False"
| "jlt PInf _ = False"
| "jlt _ _ = True"

text \<open>\<open>Math.min\<close> and \<open>Math.max\<close>: NaN as soon as one argument is NaN.\<close>

definition jmin :: "jsnum \<Rightarrow> jsnum \<Rightarrow> jsnum" where
  "jmin a b = (if a = NaN \<or> b = NaN then NaN else if jlt b a then b else a)"

definition jmax :: "jsnum \<Rightarrow> jsnum \<Rightarrow> jsnum" where
  "jmax a b = (if a = NaN \<or> b = NaN then NaN else if jlt a b then b else a)"

fun is_finite :: "jsnum \<Rightarrow> bool" where
  "is_finite (Fin a) = True"
| "is_finite _ = False"

text \<open>
  The range of doubles. A result whose magnitude is \<open>2^1024 - 2^970\<close> or more
  overflows to an infinity, and one whose magnitude is \<open>2^-1075\<close> or less underflows
  to zero; between the two the result is kept as it is (rounding is left out).
\<close>

definition overflow_bound :: real where
  "overflow_bound = 2 ^ 1024 - 2 ^ 970"

definition flush :: "real \<Rightarrow> real" where
  "flush r = (if \<bar>r\<bar> \<le> 1 / 2 ^ 1075 then 0 else r)"

fun to_double :: "jsnum \<Rightarrow> jsnum" where
  "to_double (Fin r) =
     (if overflow_bound \<le> \<bar>r\<bar> then (if 0 < r then PInf else NInf) else Fin (flush r))"
| "to_double v = v"

text \<open>
  The operations of the normal-map deriver: its strength is any double the caller
  passes, so every result is taken into the range of doubles. In the other loops all
  operands are bounded by constants of the source, no result can overflow, and an
  underflow changes a sum by less than rounding does.
\<close>

definition dadd :: "jsnum \<Rightarrow> jsnum \<Rightarrow> jsnum" where
  "dadd a b = to_double (jadd a b)"

definition dsub :: "jsnum \<Rightarrow> jsnum \<Rightarrow> jsnum" where
  "dsub a b = to_double (jsub a b)"

definition dmul :: "jsnum \<Rightarrow> jsnum \<Rightarrow> jsnum" where
  "dmul a b = to_double (jmul a b)"

definition ddiv :: "jsnum \<Rightarrow> jsnum \<Rightarrow> jsnum" where
  "ddiv a b = to_double (jdiv a b)"

definition dsqrt :: "jsnum \<Rightarrow> jsnum" where
  "dsqrt a = to_double (jsqrt a)"

text \<open>
  The remainder operator \<open>%\<close> on integers truncates: the result has the sign of the
  dividend. (With a zero divisor the source gets NaN; the loops below never reach it.)
\<close>

definition js_rem :: "int \<Rightarrow> int \<Rightarrow> int" where
  "js_rem a b = sgn a * (\<bar>a\<bar> mod \<bar>b\<bar>)"

text \<open>
  A store into a \<open>Uint8ClampedArray\<close> (the pixel data of a canvas image): NaN becomes
  0, the value is clamped to 0..255 and rounded to the nearest integer, halves to even.
\<close>

fun to_uint8_clamp :: "jsnum \<Rightarrow> nat" where
  "to_uint8_clamp NaN = 0"
| "to_uint8_clamp PInf = 255"
| "to_uint8_clamp NInf = 0"
| "to_uint8_clamp (Fin v) =
     (if v \<le> 0 then 0 else if 255 \<le> v then 255
      else (let f = \<lfloor>v\<rfloor> in
            if of_int f + 1 / 2 < v then nat (f + 1)
            else if v < of_int f + 1 / 2 then nat f
            else if even f then nat f else nat (f + 1)))"

section \<open>The generator's state\<close>

text \<open>
  \<open>TextureGenerator\<close> holds the permutation table, a \<open>Uint8Array\<close> of 512 bytes, and
  the flag \<open>init\<close>. The state of the process also holds what \<open>Math.random\<close> will
  return next: \<open>rand\<close> is the stream of its future results. The field \<open>passes\<close> is
  not in the source: it is a ghost counter of the pixel-loop passes run so far, the
  synthesis-call counter by which the specification asks to observe re-synthesis.
\<close>

record state =
  perm :: "8 word list"
  init :: bool
  rand :: "nat \<Rightarrow> real"
  passes :: nat

definition math_random :: "state \<Rightarrow> real \<times> state" where
  "math_random st = (rand st 0, st\<lparr>rand := (\<lambda>n. rand st (Suc n))\<rparr>)"

definition initial_state :: "(nat \<Rightarrow> real) \<Rightarrow> state" where
  "initial_state r = \<lparr>perm = replicate 512 0, init = False, rand = r, passes = 0\<rparr>"

text \<open>
  Typed arrays: a read outside the array gives \<open>undefined\<close> (here \<open>None\<close>), a write
  outside is ignored, and \<open>undefined\<close> is stored as 0.
\<close>

definition u8_read :: "8 word list \<Rightarrow> int \<Rightarrow> 8 word option" where
  "u8_read p k = (if 0 \<le> k \<and> nat k < length p then Some (p ! nat k) else None)"

definition u8_write :: "8 word list \<Rightarrow> int \<Rightarrow> 8 word option \<Rightarrow> 8 word list" where
  "u8_write p k v =
     (if 0 \<le> k \<and> nat k < length p
      then p[nat k := (case v of Some b \<Rightarrow> b | None \<Rightarrow> 0)] else p)"

text \<open>The swap \<open>[p[i], p[r]] = [p[r], p[i]]\<close>: both reads, then the two writes.\<close>

definition swap_entries :: "8 word list \<Rightarrow> int \<Rightarrow> int \<Rightarrow> 8 word list" where
  "swap_entries p i r =
     (let a = u8_read p r; b = u8_read p i
      in u8_write (u8_write p i a) r b)"

text \<open>The loop \<open>for (let i = 255; i > 0; i--)\<close> of \<open>setup\<close> (here \<open>setup_perm\<close>), started at \<open>i\<close>.\<close>

fun shuffle :: "nat \<Rightarrow> 8 word list \<Rightarrow> state \<Rightarrow> 8 word list \<times> state" where
  "shuffle 0 p st = (p, st)"
| "shuffle (Suc i) p st =
     (let (u, st') = math_random st;
          r = \<lfloor>u * (real (Suc i) + 1)\<rfloor>
      in shuffle i (swap_entries p (int (Suc i)) r) st')"

text \<open>The loop \<open>for (let i = 0; i < 512; i++) this.perm[i] = p[i & 255]\<close>.\<close>

definition mirror :: "8 word list \<Rightarrow> 8 word list \<Rightarrow> 8 word list" where
  "mirror p q = foldl (\<lambda>t i. u8_write t (int i) (u8_read p (int (i AND 255)))) q [0..<512]"

definition setup_perm :: "state \<Rightarrow> state" where
  "setup_perm st =
     (if init st then st
      else (let (p, st') = shuffle 255 (map of_nat [0..<256]) st
            in st'\<lparr>perm := mirror p (perm st'), init := True\<rparr>))"

section \<open>The noise primitive\<close>

definition fade :: "real \<Rightarrow> real" where
  "fade t = t * t * t * (t * (t * 6 - 15) + 10)"

definition lerp :: "real \<Rightarrow> real \<Rightarrow> real \<Rightarrow> real" where
  "lerp t a b = a + t * (b - a)"

text \<open>
  The hash is an entry of the table, or \<open>undefined\<close> when the index was outside it;
  \<open>undefined & 15\<close> is 0.
\<close>

definition grad :: "nat option \<Rightarrow> real \<Rightarrow> real \<Rightarrow> real \<Rightarrow> real" where
  "grad hash x y z =
     (let h = (case hash of None \<Rightarrow> 0 | Some v \<Rightarrow> v AND 15);
          u = (if h < 8 then x else y);
          v = (if h < 4 then y else if h = 12 \<or> h = 14 then x else z)
      in (if h AND 1 = 0 then u else - u) + (if h AND 2 = 0 then v else - v))"

text \<open>
  \<open>Math.floor(x) & 255\<close>: the operator \<open>&\<close> takes the floor modulo \<open>2^32\<close> and keeps
  the low eight bits.
\<close>

definition cell :: "real \<Rightarrow> nat" where
  "cell x = unat ((word_of_int \<lfloor>x\<rfloor> :: 32 word) AND 255)"

text \<open>
  An index into the table is a number, or NaN (\<open>None\<close>) once an \<open>undefined\<close> entry
  was added to; \<open>perm[NaN]\<close> is \<open>undefined\<close> again.
\<close>

definition perm_at :: "8 word list \<Rightarrow> nat option \<Rightarrow> nat option" where
  "perm_at p k =
     (case k of None \<Rightarrow> None
      | Some i \<Rightarrow> if i < length p then Some (unat (p ! i)) else None)"

definition plus_ix :: "nat option \<Rightarrow> nat \<Rightarrow> nat option" where
  "plus_ix a n = map_option (\<lambda>v. v + n) a"

text \<open>The body of \<open>noise\<close> after the table is set up; it only reads the table.\<close>

definition noise3 :: "8 word list \<Rightarrow> real \<Rightarrow> real \<Rightarrow> real \<Rightarrow> real" where
  "noise3 p x0 y0 z0 =
     (let X = cell x0; Y = cell y0; Z = cell z0;
          x = x0 - of_int \<lfloor>x0\<rfloor>; y = y0 - of_int \<lfloor>y0\<rfloor>; z = z0 - of_int \<lfloor>z0\<rfloor>;
          u = fade x; v = fade y; w = fade z;
          A = plus_ix (perm_at p (Some X)) Y;
          AA = plus_ix (perm_at p A) Z;
          AB = plus_ix (perm_at p (plus_ix A 1)) Z;
          B = plus_ix (perm_at p (Some (X + 1))) Y;
          BA = plus_ix (perm_at p B) Z;
          BB = plus_ix (perm_at p (plus_ix B 1)) Z
      in lerp w
           (lerp v (lerp u (grad (perm_at p AA) x y z) (grad (perm_at p BA) (x - 1) y z))
                   (lerp u (grad (perm_at p AB) x (y - 1) z)
                           (grad (perm_at p BB) (x - 1) (y - 1) z)))
           (lerp v (lerp u (grad (perm_at p (plus_ix AA 1)) x y (z - 1))
                           (grad (perm_at p (plus_ix BA 1)) (x - 1) y (z - 1)))
                   (lerp u (grad (perm_at p (plus_ix AB 1)) x (y - 1) (z - 1))
                           (grad (perm_at p (plus_ix BB 1)) (x - 1) (y - 1) (z - 1)))))"

definition noise :: "state \<Rightarrow> real \<Rightarrow> real \<Rightarrow> real \<Rightarrow> real \<times> state" where
  "noise st x y z =
     (let st' = (if \<not> init st then setup_perm st else st)
      in (noise3 (perm st') x y z, st'))"

section \<open>Fractal Brownian motion\<close>

text \<open>
  The octave loop of \<open>fbm\<close> with its four accumulators (\<open>tot\<close> is the source's
  \<open>total\<close>); the first argument is the number of iterations still to run.
\<close>

fun fbm_loop ::
  "nat \<Rightarrow> state \<Rightarrow> real \<Rightarrow> real \<Rightarrow> real \<Rightarrow> real \<Rightarrow> real \<Rightarrow> real \<Rightarrow> real \<Rightarrow> real
     \<Rightarrow> (real \<times> real) \<times> state" where
  "fbm_loop 0 st x y z persistence tot frequency amplitude maxValue =
     ((tot, maxValue), st)"
| "fbm_loop (Suc n) st x y z persistence tot frequency amplitude maxValue =
     (let (v, st') = noise st (x * frequency) (y * frequency) (z * frequency)
      in fbm_loop n st' x y z persistence (tot + v * amplitude) (frequency * 2)
           (amplitude * persistence) (maxValue + amplitude))"

definition fbm ::
  "state \<Rightarrow> real \<Rightarrow> real \<Rightarrow> real \<Rightarrow> nat \<Rightarrow> real \<Rightarrow> real \<Rightarrow> jsnum \<times> state" where
  "fbm st x y z octaves persistence scale =
     (let ((tot, maxValue), st') = fbm_loop octaves st x y z persistence 0 scale 1 0
      in (jdiv (Fin tot) (Fin maxValue), st'))"

section \<open>Canvas and pixel loops\<close>

text \<open>
  A canvas is modelled by what the generator puts on it: the RGBA bytes of the image
  data (row-major, four per pixel) and, after them, the rectangles of the \<open>fillRect\<close>
  calls \<open>(x, y, w, h)\<close> in the order drawn. Rasterising the rectangles and wrapping the
  canvas into a texture object are left to the platform.
\<close>

record canvas =
  cwidth :: nat
  cheight :: nat
  imgData :: "nat list"
  fills :: "(real \<times> real \<times> real \<times> real) list"

datatype dom_error = IndexSizeError

text \<open>
  \<open>createImageData\<close> gives transparent black, and refuses a zero width or height.
\<close>

definition createImageData :: "nat \<Rightarrow> nat \<Rightarrow> dom_error + nat list" where
  "createImageData width height =
     (if width = 0 \<or> height = 0 then Inl IndexSizeError
      else Inr (replicate (4 * width * height) 0))"

text \<open>The nested loops \<open>for y < height\<close>, \<open>for x < width\<close> around a body.\<close>

definition for_xy :: "nat \<Rightarrow> nat \<Rightarrow> (nat \<Rightarrow> nat \<Rightarrow> 'a \<Rightarrow> 'a) \<Rightarrow> 'a \<Rightarrow> 'a" where
  "for_xy width height body s =
     foldl (\<lambda>s y. foldl (\<lambda>s x. body x y s) s [0..<width]) s [0..<height]"

text \<open>
  The type parameter of \<open>createOrganicTexture\<close>:
  \<open>'granite' | 'bamboo' | 'wood' | 'sand' | 'roughness' | 'moss'\<close>.
\<close>

datatype organic_type = Granite | Bamboo | Wood | Sand | Roughness | Moss

definition granite_pixel ::
  "nat \<Rightarrow> real \<Rightarrow> real \<Rightarrow> nat list \<times> state \<Rightarrow> nat list \<times> state" where
  "granite_pixel i nx ny ds =
     (let (data, st) = ds;
          (n1, st) = fbm st (nx * 15) (ny * 15) 0 4 0.5 1;
          (n2, st) = fbm st (nx * 50) (ny * 50) 10 3 0.5 1;
          (n3, st) = fbm st (nx * 100) (ny * 100) 20 2 0.5 1;
          baseVal = jadd (Fin 0.4) (jmul n1 (Fin 0.3));
          r = jmul baseVal (Fin 160);
          g = jmul baseVal (Fin 165);
          b = jmul baseVal (Fin 170);
          (r, g, b) = (if jlt n2 (Fin 0.3)
                       then (jmul r (Fin 0.5), jmul g (Fin 0.5), jmul b (Fin 0.5))
                       else (r, g, b));
          (r, g, b) = (if jlt (Fin 0.7) n3
                       then (jadd r (Fin 40), jadd g (Fin 40), jadd b (Fin 40))
                       else (r, g, b))
      in (data[i := to_uint8_clamp r, i + 1 := to_uint8_clamp g,
               i + 2 := to_uint8_clamp b, i + 3 := 255], st))"

definition bamboo_pixel ::
  "nat \<Rightarrow> real \<Rightarrow> real \<Rightarrow> nat list \<times> state \<Rightarrow> nat list \<times> state" where
  "bamboo_pixel i nx ny ds =
     (let (data, st) = ds;
          (fiber, st) = fbm st (nx * 80) (ny * 2) 0 5 0.6 1;
          (stain, st) = fbm st (nx * 4) (ny * 6) 32 4 0.5 1;
          baseR = Fin 110; baseG = Fin 140; baseB = Fin 80;
          fiberVar = jmul (jsub fiber (Fin 0.5)) (Fin 40);
          stainVar = jmul (jsub stain (Fin 0.5)) (Fin 50)
      in (data[i := to_uint8_clamp (jmax (Fin 0) (jmin (Fin 255)
                     (jsub (jadd baseR fiberVar) (jmul stainVar (Fin 0.5))))),
               i + 1 := to_uint8_clamp (jmax (Fin 0) (jmin (Fin 255)
                     (jsub (jadd baseG fiberVar) (jmul stainVar (Fin 0.5))))),
               i + 2 := to_uint8_clamp (jmax (Fin 0) (jmin (Fin 255)
                     (jsub (jadd baseB fiberVar) (jmul stainVar (Fin 0.8))))),
               i + 3 := 255], st))"

definition wood_pixel ::
  "nat \<Rightarrow> real \<Rightarrow> real \<Rightarrow> nat list \<times> state \<Rightarrow> nat list \<times> state" where
  "wood_pixel i nx ny ds =
     (let (data, st) = ds;
          (grain, st) = fbm st (nx * 6) (ny * 40 + sin (nx * 10) * 3) 5 4 0.5 1;
          r = jadd (Fin 120) (jmul grain (Fin 30));
          g = jadd (Fin 20) (jmul grain (Fin 10));
          b = jadd (Fin 15) (jmul grain (Fin 10))
      in (data[i := to_uint8_clamp r, i + 1 := to_uint8_clamp g,
               i + 2 := to_uint8_clamp b, i + 3 := 255], st))"

definition sand_pixel ::
  "nat \<Rightarrow> real \<Rightarrow> real \<Rightarrow> nat list \<times> state \<Rightarrow> nat list \<times> state" where
  "sand_pixel i nx ny ds =
     (let (data, st) = ds;
          (grain, st) = fbm st (nx * 150) (ny * 150) 0 2 0.5 1;
          (patch, st) = fbm st (nx * 5) (ny * 5) 10 3 0.5 1;
          val = jadd (jadd (Fin 200) (jmul grain (Fin 40))) (jmul patch (Fin 15))
      in (data[i := to_uint8_clamp val, i + 1 := to_uint8_clamp val,
               i + 2 := to_uint8_clamp (jsub val (Fin 5)), i + 3 := 255], st))"

text \<open>
  The body of the pixel loop of \<open>createOrganicTexture\<close>. The types \<open>'roughness'\<close> and
  \<open>'moss'\<close> have no branch: nothing is written for them.
\<close>

definition organic_pixel ::
  "nat \<Rightarrow> nat \<Rightarrow> organic_type \<Rightarrow> nat \<Rightarrow> nat \<Rightarrow> nat list \<times> state \<Rightarrow> nat list \<times> state" where
  "organic_pixel width height mtype x y ds =
     (let i = (y * width + x) * 4;
          nx = real x / real width;
          ny = real y / real height
      in if mtype = Granite then granite_pixel i nx ny ds
         else if mtype = Bamboo then bamboo_pixel i nx ny ds
         else if mtype = Wood then wood_pixel i nx ny ds
         else if mtype = Sand then sand_pixel i nx ny ds
         else ds)"

text \<open>The scuff marks of bamboo: the loop \<open>for (let k = 0; k < 30; k++)\<close>.\<close>

fun scuffs :: "nat \<Rightarrow> nat \<Rightarrow> nat \<Rightarrow> state \<Rightarrow> (real \<times> real \<times> real \<times> real) list \<times> state" where
  "scuffs 0 width height st = ([], st)"
| "scuffs (Suc k) width height st =
     (let (a, st) = math_random st;
          (b, st) = math_random st;
          (c, st) = math_random st;
          (d, st) = math_random st;
          rx = a * real width;
          ry = b * real height;
          w = 2 + c * 5;
          h = 10 + d * 30;
          (rest, st) = scuffs k width height st
      in ((rx, ry, w, h) # rest, st))"

text \<open>
  The three entry points. Each creates its canvas and image data, sets up the table,
  runs its pixel loops and puts the data on the canvas. The update of \<open>passes\<close> is the
  ghost count of the pass; it corresponds to no statement of the source.
\<close>

definition createOrganicTexture ::
  "nat \<Rightarrow> nat \<Rightarrow> organic_type \<Rightarrow> state \<Rightarrow> dom_error + canvas \<times> state" where
  "createOrganicTexture width height mtype st =
     (case createImageData width height of
        Inl e \<Rightarrow> Inl e
      | Inr data0 \<Rightarrow>
          (let st = setup_perm st;
               st = st\<lparr>passes := passes st + 1\<rparr>;
               (data, st) = for_xy width height (organic_pixel width height mtype) (data0, st);
               (rects, st) = (if mtype = Bamboo then scuffs 30 width height st else ([], st))
           in Inr (\<lparr>cwidth = width, cheight = height, imgData = data, fills = rects\<rparr>, st)))"

text \<open>The type parameter of \<open>createRoughnessMap\<close>: \<open>'stone' | 'bamboo' | 'sand'\<close>.\<close>

datatype rough_type = StoneR | BambooR | SandR

text \<open>The scalar \<open>val\<close> of a pixel of \<open>createRoughnessMap\<close>.\<close>

definition roughness_val :: "rough_type \<Rightarrow> real \<Rightarrow> real \<Rightarrow> state \<Rightarrow> jsnum \<times> state" where
  "roughness_val rtype nx ny st =
     (if rtype = StoneR then
        (let (n, st) = fbm st (nx * 60) (ny * 60) 5 3 0.5 1
         in (jadd (Fin 0.4) (jmul n (Fin 0.6)), st))
      else if rtype = BambooR then
        (let (fiber, st) = fbm st (nx * 100) (ny * 2) 0 2 0.5 1
         in (jadd (Fin 0.2) (jmul fiber (Fin 0.3)), st))
      else if rtype = SandR then
        (let (n, st) = fbm st (nx * 100) (ny * 100) 0 2 0.5 1
         in (jadd (Fin 0.8) (jmul n (Fin 0.2)), st))
      else (Fin 0.5, st))"

definition roughness_pixel ::
  "nat \<Rightarrow> nat \<Rightarrow> rough_type \<Rightarrow> nat \<Rightarrow> nat \<Rightarrow> nat list \<times> state \<Rightarrow> nat list \<times> state" where
  "roughness_pixel width height rtype x y ds =
     (let (data, st) = ds;
          i = (y * width + x) * 4;
          nx = real x / real width;
          ny = real y / real height;
          (val, st) = roughness_val rtype nx ny st
      in (data[i := to_uint8_clamp (jmul val (Fin 255)),
               i + 1 := to_uint8_clamp (jmul val (Fin 255)),
               i + 2 := to_uint8_clamp (jmul val (Fin 255)),
               i + 3 := 255], st))"

definition createRoughnessMap ::
  "nat \<Rightarrow> nat \<Rightarrow> rough_type \<Rightarrow> state \<Rightarrow> dom_error + canvas \<times> state" where
  "createRoughnessMap width height rtype st =
     (case createImageData width height of
        Inl e \<Rightarrow> Inl e
      | Inr data0 \<Rightarrow>
          (let st = setup_perm st;
               st = st\<lparr>passes := passes st + 1\<rparr>;
               (data, st) = for_xy width height (roughness_pixel width height rtype) (data0, st)
           in Inr (\<lparr>cwidth = width, cheight = height, imgData = data, fills = []\<rparr>, st)))"

section \<open>The normal map\<close>

text \<open>The type parameter of \<open>createNormalMap\<close>: \<open>'generic' | 'bamboo' | 'stone'\<close>.\<close>

datatype normal_type = GenericN | BambooN | StoneN

text \<open>
  The height buffer is a \<open>Float32Array\<close>: a read outside it gives \<open>undefined\<close>, which
  is NaN in arithmetic; a write outside it is ignored. (The rounding of a stored value
  to single precision is left out, as all rounding is.)
\<close>

definition f32_read :: "jsnum list \<Rightarrow> int \<Rightarrow> jsnum" where
  "f32_read buffer k = (if 0 \<le> k \<and> nat k < length buffer then buffer ! nat k else NaN)"

definition height_pixel ::
  "nat \<Rightarrow> nat \<Rightarrow> normal_type \<Rightarrow> nat \<Rightarrow> nat \<Rightarrow> jsnum list \<times> state \<Rightarrow> jsnum list \<times> state" where
  "height_pixel width height ntype x y bs =
     (let (buffer, st) = bs;
          nx = real x / real width;
          ny = real y / real height;
          (v, st) = (if ntype = BambooN then fbm st (nx * 150) (ny * 5) 0 3 0.5 1
                     else if ntype = StoneN then fbm st (nx * 20) (ny * 20) 99 5 0.5 1
                     else fbm st (nx * 10) (ny * 10) 99 4 0.5 1)
      in (buffer[y * width + x := v], st))"

text \<open>The indices of the four neighbours read by the gradient loop.\<close>

definition x1_index :: "nat \<Rightarrow> nat \<Rightarrow> nat \<Rightarrow> int" where
  "x1_index width x y = int y * int width + js_rem (int x - 1 + int width) (int width)"

definition x2_index :: "nat \<Rightarrow> nat \<Rightarrow> nat \<Rightarrow> int" where
  "x2_index width x y = int y * int width + js_rem (int x + 1) (int width)"

definition y1_index :: "nat \<Rightarrow> nat \<Rightarrow> nat \<Rightarrow> nat \<Rightarrow> int" where
  "y1_index width height x y = js_rem (int y - 1 + int height) (int height) * int width + int x"

definition y2_index :: "nat \<Rightarrow> nat \<Rightarrow> nat \<Rightarrow> nat \<Rightarrow> int" where
  "y2_index width height x y = js_rem (int y + 1) (int height) * int width + int x"

definition dx_at :: "jsnum list \<Rightarrow> nat \<Rightarrow> real \<Rightarrow> nat \<Rightarrow> nat \<Rightarrow> jsnum" where
  "dx_at buffer width strength x y =
     (let x1 = f32_read buffer (x1_index width x y);
          x2 = f32_read buffer (x2_index width x y)
      in dmul (dsub x1 x2) (Fin strength))"

definition dy_at :: "jsnum list \<Rightarrow> nat \<Rightarrow> nat \<Rightarrow> real \<Rightarrow> nat \<Rightarrow> nat \<Rightarrow> jsnum" where
  "dy_at buffer width height strength x y =
     (let y1 = f32_read buffer (y1_index width height x y);
          y2 = f32_read buffer (y2_index width height x y)
      in dmul (dsub y1 y2) (Fin strength))"

definition dz_of :: "real \<Rightarrow> jsnum" where
  "dz_of strength = ddiv (Fin 1) (Fin strength)"

text \<open>
  The depth term \<open>dz = 1.0 / strength\<close> and the vector
  \<open>(dx / len, dy / len, dz / len)\<close> of a pixel.
\<close>

definition normal_vec ::
  "jsnum list \<Rightarrow> nat \<Rightarrow> nat \<Rightarrow> real \<Rightarrow> nat \<Rightarrow> nat \<Rightarrow> jsnum \<times> jsnum \<times> jsnum" where
  "normal_vec buffer width height strength x y =
     (let dx = dx_at buffer width strength x y;
          dy = dy_at buffer width height strength x y;
          dz = dz_of strength;
          len = dsqrt (dadd (dadd (dmul dx dx) (dmul dy dy)) (dmul dz dz))
      in (ddiv dx len, ddiv dy len, ddiv dz len))"

definition normal_pixel ::
  "jsnum list \<Rightarrow> nat \<Rightarrow> nat \<Rightarrow> real \<Rightarrow> nat \<Rightarrow> nat \<Rightarrow> nat list \<Rightarrow> nat list" where
  "normal_pixel buffer width height strength x y data =
     (let i = (y * width + x) * 4;
          (vx, vy, vz) = normal_vec buffer width height strength x y
      in data[i := to_uint8_clamp (dmul (dadd (dmul vx (Fin 0.5)) (Fin 0.5)) (Fin 255)),
              i + 1 := to_uint8_clamp (dmul (dadd (dmul vy (Fin 0.5)) (Fin 0.5)) (Fin 255)),
              i + 2 := to_uint8_clamp (dmul vz (Fin 255)),
              i + 3 := 255])"

definition height_map :: "nat \<Rightarrow> nat \<Rightarrow> normal_type \<Rightarrow> state \<Rightarrow> jsnum list \<times> state" where
  "height_map width height ntype st =
     for_xy width height (height_pixel width height ntype)
       (replicate (width * height) (Fin 0), st)"

definition createNormalMap ::
  "nat \<Rightarrow> nat \<Rightarrow> real \<Rightarrow> normal_type \<Rightarrow> state \<Rightarrow> dom_error + canvas \<times> state" where
  "createNormalMap width height strength ntype st =
     (case createImageData width height of
        Inl e \<Rightarrow> Inl e
      | Inr data0 \<Rightarrow>
          (let st = setup_perm st;
               st = st\<lparr>passes := passes st + 1\<rparr>;
               (buffer, st) = height_map width height ntype st;
               data = for_xy width height (normal_pixel buffer width height strength) data0
           in Inr (\<lparr>cwidth = width, cheight = height, imgData = data, fills = []\<rparr>, st)))"

section \<open>Notions used in the statements\<close>

text \<open>
  The octave sum as the specification words it: octave \<open>i\<close> has frequency
  \<open>scale * 2^i\<close> and amplitude \<open>persistence^i\<close>, and the sum of the weighted
  samples is divided by the sum of the amplitudes.
\<close>

definition fbm_spec ::
  "8 word list \<Rightarrow> real \<Rightarrow> real \<Rightarrow> real \<Rightarrow> nat \<Rightarrow> real \<Rightarrow> real \<Rightarrow> jsnum" where
  "fbm_spec p x y z octaves persistence scale =
     jdiv (Fin (\<Sum>i<octaves. noise3 p (x * (scale * 2 ^ i)) (y * (scale * 2 ^ i))
                  (z * (scale * 2 ^ i)) * persistence ^ i))
          (Fin (\<Sum>i<octaves. persistence ^ i))"

text \<open>\<open>Math.random\<close> returns numbers of the interval from 0 up to, not including, 1.\<close>

definition unit_rand :: "(nat \<Rightarrow> real) \<Rightarrow> bool" where
  "unit_rand r = (\<forall>n. 0 \<le> r n \<and> r n < 1)"

text \<open>Three streams of random numbers for concrete runs.\<close>

definition zero_rand :: "nat \<Rightarrow> real" where
  "zero_rand n = 0"

definition edge_rand :: "nat \<Rightarrow> real" where
  "edge_rand n = 255 / 256"

definition step_rand :: "nat \<Rightarrow> real" where
  "step_rand n = (if n < 300 then 0 else 1 / 2)"

text \<open>The table in which every entry is its own index.\<close>

definition id_table :: "8 word list" where
  "id_table = map of_nat [0..<256] @ map of_nat [0..<256]"

text \<open>
  The scaled difference of two heights and the length of the vector, as the deriver
  computes them when nothing overflows: a product or a difference that underflows is 0.
\<close>

definition scaled_diff :: "real \<Rightarrow> real \<Rightarrow> real \<Rightarrow> real" where
  "scaled_diff a b s = flush (flush (a - b) * s)"

definition vec_len :: "real \<Rightarrow> real \<Rightarrow> real \<Rightarrow> real" where
  "vec_len dx dy dz = sqrt (flush (dx * dx) + flush (dy * dy) + dz * dz)"

text \<open>The quintic ease polynomial as the specification writes it.\<close>

definition quintic :: "real \<Rightarrow> real" where
  "quintic t = 6 * t ^ 5 - 15 * t ^ 4 + 10 * t ^ 3"

text \<open>
  The contribution of the corner \<open>(i, j, k)\<close> of the lattice cell of a point: the
  gradient selected by hashing the corner's coordinates through the table, applied to
  the offset of the point from the corner.
\<close>

definition corner :: "8 word list \<Rightarrow> real \<Rightarrow> real \<Rightarrow> real \<Rightarrow> nat \<Rightarrow> nat \<Rightarrow> nat \<Rightarrow> real" where
  "corner p x y z i j k =
     grad (perm_at p (plus_ix (perm_at p (plus_ix (perm_at p (Some (cell x + i))) (cell y + j)))
                        (cell z + k)))
       (frac x - real i) (frac y - real j) (frac z - real k)"

section \<open>Basic facts\<close>

text \<open>The three concrete streams are streams \<open>Math.random\<close> can produce.\<close>

lemma concrete_rands_unit: "unit_rand zero_rand" "unit_rand edge_rand" "unit_rand step_rand"
  by (simp_all add: unit_rand_def zero_rand_def edge_rand_def step_rand_def)

lemma grad_origin: "grad h 0 0 0 = 0"
  by (simp add: grad_def Let_def)

lemma fade_zero: "fade 0 = 0"
  by (simp add: fade_def)

lemma lerp_zero: "lerp 0 a b = a"
  by (simp add: lerp_def)

text \<open>The cell coordinate is the floor modulo 256.\<close>

lemma cell_mod: "cell x = nat (\<lfloor>x\<rfloor> mod 256)"
proof -
  have "(word_of_int \<lfloor>x\<rfloor> :: 32 word) AND 255 = take_bit 8 (word_of_int \<lfloor>x\<rfloor>)"
    using take_bit_eq_mask [of 8 "word_of_int \<lfloor>x\<rfloor> :: 32 word"] by (simp add: mask_eq_exp_minus_1)
  then have "cell x = unat (take_bit 8 (word_of_int \<lfloor>x\<rfloor> :: 32 word))"
    by (simp add: cell_def)
  also have "\<dots> = nat (take_bit 8 \<lfloor>x\<rfloor>)"
    by (simp add: unsigned_take_bit_eq unsigned_of_int take_bit_of_int min_def nat_take_bit_eq)
  finally show ?thesis by (simp add: take_bit_eq_mod)
qed

lemma init_setup_perm: "init (setup_perm st)"
  by (simp add: setup_perm_def Let_def split_def)

lemma setup_perm_init: "init st \<Longrightarrow> setup_perm st = st"
  by (simp add: setup_perm_def)

lemma noise_init: "init st \<Longrightarrow> noise st x y z = (noise3 (perm st) x y z, st)"
  by (simp add: noise_def)

lemma noise_setup: "noise st x y z = (noise3 (perm (setup_perm st)) x y z, setup_perm st)"
  by (simp add: noise_def Let_def setup_perm_init)

lemma fbm_loop_init:
  "init st \<Longrightarrow> fbm_loop n st x y z p t f a m =
     ((t + (\<Sum>i<n. noise3 (perm st) (x * (f * 2 ^ i)) (y * (f * 2 ^ i)) (z * (f * 2 ^ i))
                * (a * p ^ i)),
       m + (\<Sum>i<n. a * p ^ i)), st)"
proof (induction n arbitrary: t f a m)
  case 0
  then show ?case by simp
next
  case (Suc n)
  show ?case
    using Suc.prems
    by (simp add: noise_init Suc.IH sum.lessThan_Suc_shift algebra_simps del: sum.lessThan_Suc)
qed

lemma fbm_init: "init st \<Longrightarrow> fbm st x y z n p s = (fbm_spec (perm st) x y z n p s, st)"
  by (simp add: fbm_def fbm_spec_def fbm_loop_init)

lemma fbm_loop_setup:
  "fbm_loop (Suc n) st x y z p t f a m = fbm_loop (Suc n) (setup_perm st) x y z p t f a m"
  by (simp add: noise_setup setup_perm_init init_setup_perm)

section \<open>The noise field on the integer lattice\<close>

text \<open>
  C10. At every point whose three coordinates are integers the noise primitive returns
  exactly 0, whatever the permutation table: the offsets are zero, every corner
  gradient of a zero offset is zero, and so is the interpolation.
\<close>

theorem noise_lattice_zero:
  "noise3 p (of_int i) (of_int j) (of_int k) = 0 \<and>
   fst (noise st (of_int i) (of_int j) (of_int k)) = 0"
  by (simp add: noise_def noise3_def Let_def fade_zero lerp_zero grad_origin)

section \<open>The octave sum\<close>

text \<open>
  C8. With one octave \<open>fbm\<close> is the noise at the scaled coordinates, for every
  persistence and scale. In general octave \<open>i\<close> is sampled at frequency
  \<open>scale * 2^i\<close> with amplitude \<open>persistence^i\<close>, starting from frequency \<open>scale\<close> and
  amplitude 1, and the sum is divided by the sum of the amplitudes.
\<close>

theorem fbm_octaves:
  "fbm st x y z 1 p s =
     (Fin (fst (noise st (x * s) (y * s) (z * s))), snd (noise st (x * s) (y * s) (z * s))) \<and>
   fst (fbm st x y z n p s) = fbm_spec (perm (setup_perm st)) x y z n p s \<and>
   snd (fbm st x y z n p s) = (if n = 0 then st else setup_perm st)"
proof (intro conjI)
  show "fbm st x y z 1 p s =
     (Fin (fst (noise st (x * s) (y * s) (z * s))), snd (noise st (x * s) (y * s) (z * s)))"
    by (simp add: fbm_def split_def Let_def)
next
  have "fbm st x y z n p s =
      (fbm_spec (perm (setup_perm st)) x y z n p s, if n = 0 then st else setup_perm st)"
  proof (cases n)
    case 0
    then show ?thesis by (simp add: fbm_def fbm_spec_def)
  next
    case (Suc m)
    have "fbm st x y z (Suc m) p s = fbm (setup_perm st) x y z (Suc m) p s"
      unfolding fbm_def by (subst fbm_loop_setup) (rule refl)
    then show ?thesis using Suc by (simp add: fbm_init init_setup_perm)
  qed
  then show "fst (fbm st x y z n p s) = fbm_spec (perm (setup_perm st)) x y z n p s"
    and "snd (fbm st x y z n p s) = (if n = 0 then st else setup_perm st)"
    by simp_all
qed

section \<open>The permutation table\<close>

lemma and_255_nat: "(i::nat) AND 255 = i mod 256"
proof -
  have "i AND mask 8 = take_bit 8 i" by (simp add: take_bit_eq_mask)
  then show ?thesis by (simp add: take_bit_eq_mod mask_eq_exp_minus_1)
qed

lemma swap_entries_in_range:
  assumes "0 \<le> r" "nat r < length p" "i < length p"
  shows "swap_entries p (int i) r = p[i := p ! nat r, nat r := p ! i]"
  using assms by (simp add: swap_entries_def u8_read_def u8_write_def Let_def)

lemma mset_swap_entries:
  assumes "0 \<le> r" "nat r < length p" "i < length p"
  shows "mset (swap_entries p (int i) r) = mset p"
  using assms by (simp add: swap_entries_in_range mset_swap)

lemma length_swap_entries [simp]: "length (swap_entries p i r) = length p"
  by (simp add: swap_entries_def u8_write_def Let_def)

lemma draw_in_range:
  assumes "0 \<le> u" "u < 1"
  shows "0 \<le> \<lfloor>u * (real (Suc i) + 1)\<rfloor>" and "nat \<lfloor>u * (real (Suc i) + 1)\<rfloor> \<le> Suc i"
proof -
  show "0 \<le> \<lfloor>u * (real (Suc i) + 1)\<rfloor>" using assms by simp
  have "u * (real (Suc i) + 1) < real (Suc i) + 1"
    using assms by (simp add: mult_less_cancel_right1)
  then have "\<lfloor>u * (real (Suc i) + 1)\<rfloor> < int (Suc i) + 1"
    by (simp add: floor_less_iff)
  then show "nat \<lfloor>u * (real (Suc i) + 1)\<rfloor> \<le> Suc i" by linarith
qed

text \<open>The shuffle only swaps entries: it keeps the multiset of the array.\<close>

lemma shuffle_mset:
  "unit_rand (rand st) \<Longrightarrow> i < length p \<Longrightarrow>
     mset (fst (shuffle i p st)) = mset p \<and> length (fst (shuffle i p st)) = length p"
proof (induction i arbitrary: p st)
  case 0
  then show ?case by simp
next
  case (Suc i)
  let ?u = "rand st 0"
  let ?st' = "st\<lparr>rand := (\<lambda>n. rand st (Suc n))\<rparr>"
  let ?r = "\<lfloor>?u * (real (Suc i) + 1)\<rfloor>"
  let ?p' = "swap_entries p (int (Suc i)) ?r"
  have u: "0 \<le> ?u" "?u < 1" using Suc.prems(1) by (simp_all add: unit_rand_def)
  have r: "0 \<le> ?r" "nat ?r < length p"
    using draw_in_range [OF u, of i] Suc.prems(2) by simp_all
  have st': "unit_rand (rand ?st')" using Suc.prems(1) by (simp add: unit_rand_def)
  have "mset ?p' = mset p" using r Suc.prems(2) by (rule mset_swap_entries)
  moreover have "i < length ?p'" using Suc.prems(2) by simp
  ultimately show ?case
    using Suc.IH [OF st', of ?p'] by (simp add: math_random_def)
qed

lemma shuffle_state:
  "snd (shuffle i p st) = st\<lparr>rand := (\<lambda>n. rand st (n + i))\<rparr>"
  by (induction i arbitrary: p st) (simp_all add: math_random_def)

lemma fill_upt:
  "n \<le> length q \<Longrightarrow> foldl (\<lambda>t i. t[i := f i]) q [0..<n] = map f [0..<n] @ drop n q"
proof (induction n)
  case 0
  then show ?case by simp
next
  case (Suc n)
  then have "foldl (\<lambda>t i. t[i := f i]) q [0..<Suc n] = (map f [0..<n] @ drop n q)[n := f n]"
    by simp
  also have "\<dots> = map f [0..<n] @ (drop n q)[0 := f n]"
    by (simp add: list_update_append)
  also have "(drop n q)[0 := f n] = f n # drop (Suc n) q"
    using Suc.prems by (simp add: Cons_nth_drop_Suc [symmetric])
  finally show ?case by simp
qed

lemma mirror_eq:
  assumes "length p = 256" "length q = 512"
  shows "mirror p q = p @ p"
proof -
  have "mirror p q = foldl (\<lambda>t i. t[i := p ! (i mod 256)]) q [0..<512]"
    unfolding mirror_def
    by (rule foldl_cong)
      (simp_all add: u8_read_def u8_write_def and_255_nat assms list_update_beyond)
  also have "\<dots> = map (\<lambda>i. p ! (i mod 256)) [0..<512]"
    using fill_upt [of 512 q "\<lambda>i. p ! (i mod 256)"] assms by simp
  also have "\<dots> = p @ p"
  proof (rule nth_equalityI)
    show "length (map (\<lambda>i. p ! (i mod 256)) [0..<512]) = length (p @ p)"
      by (simp add: assms)
  next
    fix i assume "i < length (map (\<lambda>i. p ! (i mod 256)) [0..<512])"
    then have i: "i < 512" by simp
    have "\<not> i < 256 \<Longrightarrow> i mod 256 = i - 256"
      using i by (simp add: mod_if)
    then show "map (\<lambda>i. p ! (i mod 256)) [0..<512] ! i = (p @ p) ! i"
      using i by (auto simp: assms nth_append)
  qed
  finally show ?thesis .
qed

lemma unat_of_nat_byte: "map unat (map of_nat [0..<256] :: 8 word list) = [0..<256]"
  by (rule nth_equalityI) (simp_all add: unat_of_nat)

lemma setup_perm_table:
  assumes "unit_rand (rand st)" "\<not> init st" "length (perm st) = 512"
  shows "\<exists>p. perm (setup_perm st) = p @ p \<and> length p = 256 \<and>
             mset (map unat p) = mset [0..<256]"
proof -
  let ?p = "fst (shuffle 255 (map of_nat [0..<256]) st)"
  have p: "mset ?p = mset (map of_nat [0..<256])" "length ?p = 256"
    using shuffle_mset [OF assms(1), of 255 "map of_nat [0..<256]"] by simp_all
  have "perm (setup_perm st) = mirror ?p (perm st)"
    using assms(2) by (simp add: setup_perm_def split_def Let_def shuffle_state)
  then have "perm (setup_perm st) = ?p @ ?p"
    using mirror_eq [OF p(2) assms(3)] by simp
  moreover have "mset (map unat ?p) = mset [0..<256]"
    using p(1) unat_of_nat_byte by (metis mset_map)
  ultimately show ?thesis using p(2) by blast
qed

text \<open>
  C7. After the table is initialised (from a state with a 512-entry table, not yet
  initialised, and random numbers in the unit interval), every value 0..255 occurs
  exactly once among the first 256 entries, entries 256..511 repeat entries 0..255, and
  later operations leave the state alone: a second call of \<open>setup\<close> changes nothing, and
  noise and \<open>fbm\<close> evaluations return the state they were given.
\<close>

theorem perm_table_invariant:
  assumes "unit_rand (rand st)" and "\<not> init st" and "length (perm st) = 512"
  shows "mset (map unat (take 256 (perm (setup_perm st)))) = mset [0..<256] \<and>
         length (perm (setup_perm st)) = 512 \<and>
         (\<forall>i<256. perm (setup_perm st) ! (i + 256) = perm (setup_perm st) ! i) \<and>
         setup_perm (setup_perm st) = setup_perm st \<and>
         snd (noise (setup_perm st) x y z) = setup_perm st \<and>
         snd (fbm (setup_perm st) x y z n pers sc) = setup_perm st"
proof -
  obtain p where p: "perm (setup_perm st) = p @ p" "length p = 256"
      "mset (map unat p) = mset [0..<256]"
    using setup_perm_table [OF assms] by blast
  have "\<forall>i<256. (p @ p) ! (i + 256) = (p @ p) ! i"
    using p(2) by (simp add: nth_append)
  then show ?thesis
    using p by (simp add: setup_perm_init init_setup_perm noise_init fbm_init)
qed

theorem perm_table_invariant_witness:
  "unit_rand (rand (initial_state zero_rand)) \<and> \<not> init (initial_state zero_rand) \<and>
   length (perm (initial_state zero_rand)) = 512 \<and>
   mset (map unat (take 256 (perm (setup_perm (initial_state zero_rand))))) = mset [0..<256] \<and>
   length (perm (setup_perm (initial_state zero_rand))) = 512 \<and>
   perm (setup_perm (initial_state zero_rand)) ! (7 + 256) =
     perm (setup_perm (initial_state zero_rand)) ! 7 \<and>
   setup_perm (setup_perm (initial_state zero_rand)) = setup_perm (initial_state zero_rand) \<and>
   snd (noise (setup_perm (initial_state zero_rand)) 0 0 0) = setup_perm (initial_state zero_rand) \<and>
   snd (fbm (setup_perm (initial_state zero_rand)) 0 0 0 2 (1 / 2) 1) =
     setup_perm (initial_state zero_rand)"
proof -
  have h: "unit_rand (rand (initial_state zero_rand))" "\<not> init (initial_state zero_rand)"
      "length (perm (initial_state zero_rand)) = 512"
    by (simp_all add: initial_state_def unit_rand_def zero_rand_def)
  have "(7::nat) < 256" by simp
  then show ?thesis
    using h perm_table_invariant [OF h, of 0 0 0 2 "1 / 2" 1] by blast
qed

section \<open>Loops over the pixels\<close>

text \<open>
  Proof rules for the nested pixel loops: an invariant indexed by the number of pixels
  done, in row-major order, and its consequences for bodies that write one block of
  the buffer per pixel.
\<close>

lemma foldl_upt_induct:
  assumes "Q 0 s" and "\<And>k s. k < n \<Longrightarrow> Q k s \<Longrightarrow> Q (Suc k) (f s k)"
  shows "Q n (foldl f s [0..<n])"
  using assms(2)
proof (induction n)
  case 0
  then show ?case using assms(1) by simp
next
  case (Suc n)
  have "Q n (foldl f s [0..<n])"
    by (rule Suc.IH) (simp add: Suc.prems)
  then show ?case by (simp add: Suc.prems)
qed

lemma for_xy_induct:
  assumes "R 0 s"
    and "\<And>x y s. x < w \<Longrightarrow> y < h \<Longrightarrow> R (y * w + x) s \<Longrightarrow> R (Suc (y * w + x)) (body x y s)"
  shows "R (h * w) (for_xy w h body s)"
  unfolding for_xy_def
proof (rule foldl_upt_induct [where Q = "\<lambda>y s. R (y * w) s"])
  show "R (0 * w) s" using assms(1) by simp
next
  fix y s assume y: "y < h" and r: "R (y * w) s"
  have "R (y * w + w) (foldl (\<lambda>s x. body x y s) s [0..<w])"
  proof (rule foldl_upt_induct [where Q = "\<lambda>x s. R (y * w + x) s"])
    show "R (y * w + 0) s" using r by simp
  next
    fix x s assume "x < w" "R (y * w + x) s"
    then show "R (y * w + Suc x) (body x y s)"
      using assms(2) [of x y s] y by simp
  qed
  then show "R (Suc y * w) (foldl (\<lambda>s x. body x y s) s [0..<w])"
    by (simp add: add.commute)
qed

lemma for_xy_invariant:
  assumes "P s" and "\<And>x y s. x < w \<Longrightarrow> y < h \<Longrightarrow> P s \<Longrightarrow> P (body x y s)"
  shows "P (for_xy w h body s)"
  using for_xy_induct [where R = "\<lambda>_. P", OF assms(1)] assms(2) by blast

lemma for_xy_state:
  assumes "\<And>x y d. x < w \<Longrightarrow> y < h \<Longrightarrow> body x y (d, s) = (g x y d, s)"
  shows "for_xy w h body (d, s) = (for_xy w h g d, s)"
proof -
  have row: "foldl (\<lambda>s x. body x y s) (d, s) xs = (foldl (\<lambda>d x. g x y d) d xs, s)"
    if "set xs \<subseteq> {..<w}" "y < h" for xs y d
    using that by (induction xs arbitrary: d) (simp_all add: assms)
  have inner: "foldl (\<lambda>s x. body x y s) (d, s) [0..<w] = (foldl (\<lambda>d x. g x y d) d [0..<w], s)"
    if "y < h" for y d
    by (rule row) (use that in auto)
  have rows: "foldl (\<lambda>s y. foldl (\<lambda>s x. body x y s) s [0..<w]) (d, s) ys =
        (foldl (\<lambda>d y. foldl (\<lambda>d x. g x y d) d [0..<w]) d ys, s)"
    if "set ys \<subseteq> {..<h}" for ys
    using that by (induction ys arbitrary: d) (simp_all add: inner)
  show ?thesis unfolding for_xy_def by (rule rows) auto
qed

lemma for_xy_blocks:
  assumes len: "\<And>x y d. x < w \<Longrightarrow> y < h \<Longrightarrow> length (g x y d) = length d"
    and other: "\<And>x y d j. x < w \<Longrightarrow> y < h \<Longrightarrow> j < length d \<Longrightarrow> j div n \<noteq> y * w + x \<Longrightarrow> g x y d ! j = d ! j"
    and own: "\<And>x y d c. x < w \<Longrightarrow> y < h \<Longrightarrow> c < n \<Longrightarrow> (y * w + x) * n + c < length d \<Longrightarrow>
                g x y d ! ((y * w + x) * n + c) = V x y c"
    and xy: "x < w" "y < h" "c < n" "(y * w + x) * n + c < length d0"
  shows "for_xy w h g d0 ! ((y * w + x) * n + c) = V x y c"
    and "length (for_xy w h g d0) = length d0"
proof -
  let ?R = "\<lambda>k d. length d = length d0 \<and>
      (\<forall>j<k. \<forall>c<n. j * n + c < length d0 \<longrightarrow> d ! (j * n + c) = V (j mod w) (j div w) c)"
  have "?R (h * w) (for_xy w h g d0)"
  proof (rule for_xy_induct [where R = ?R])
    show "?R 0 d0" by simp
  next
    fix x y d assume x: "x < w" and y: "y < h" and r: "?R (y * w + x) d"
    show "?R (Suc (y * w + x)) (g x y d)"
    proof (intro conjI allI impI)
      show "length (g x y d) = length d0" using len [OF x y] r by simp
    next
      fix j c assume j: "j < Suc (y * w + x)" and c: "c < n" and b: "j * n + c < length d0"
      show "g x y d ! (j * n + c) = V (j mod w) (j div w) c"
      proof (cases "j = y * w + x")
        case True
        then show ?thesis using own [OF x y c, of d] b r x by simp
      next
        case False
        then have lt: "j < y * w + x" using j by simp
        have "(j * n + c) div n = j" using c by simp
        then have "g x y d ! (j * n + c) = d ! (j * n + c)"
          using other [OF x y, of "j * n + c" d] b r False by simp
        also have "\<dots> = V (j mod w) (j div w) c" using r lt c b by blast
        finally show ?thesis .
      qed
    qed
  qed
  then have r: "?R (h * w) (for_xy w h g d0)" .
  show "length (for_xy w h g d0) = length d0" using r by simp
  have "y * w + x < h * w"
  proof -
    have "y * w + x < y * w + w" using xy(1) by simp
    also have "\<dots> = Suc y * w" by simp
    also have "\<dots> \<le> h * w" using xy(2) by (intro mult_le_mono1) simp
    finally show ?thesis .
  qed
  then show "for_xy w h g d0 ! ((y * w + x) * n + c) = V x y c"
    using r xy by simp
qed


lemma passes_setup_perm: "passes (setup_perm st) = passes st"
  by (simp add: setup_perm_def split_def Let_def shuffle_state)

lemma scuffs_state:
  "perm (snd (scuffs k w h st)) = perm st \<and> init (snd (scuffs k w h st)) = init st \<and>
   passes (snd (scuffs k w h st)) = passes st"
  by (induction k arbitrary: st) (simp_all add: math_random_def split_def Let_def)

lemmas pixel_defs = organic_pixel_def granite_pixel_def bamboo_pixel_def wood_pixel_def
  sand_pixel_def roughness_pixel_def roughness_val_def height_pixel_def

lemma organic_pixel_state: "init s \<Longrightarrow> snd (organic_pixel w h t x y (d, s)) = s"
  by (simp add: pixel_defs fbm_init split_def Let_def)

lemma organic_pixel_perm:
  "init s \<Longrightarrow> init s' \<Longrightarrow> perm s = perm s' \<Longrightarrow>
     fst (organic_pixel w h t x y (d, s)) = fst (organic_pixel w h t x y (d, s'))"
  by (simp add: pixel_defs fbm_init split_def Let_def)

lemma roughness_pixel_state: "init s \<Longrightarrow> snd (roughness_pixel w h t x y (d, s)) = s"
  by (simp add: pixel_defs fbm_init split_def Let_def)

lemma roughness_pixel_perm:
  "init s \<Longrightarrow> init s' \<Longrightarrow> perm s = perm s' \<Longrightarrow>
     fst (roughness_pixel w h t x y (d, s)) = fst (roughness_pixel w h t x y (d, s'))"
  by (simp add: pixel_defs fbm_init split_def Let_def)

lemma height_pixel_state: "init s \<Longrightarrow> snd (height_pixel w h t x y (d, s)) = s"
  by (simp add: pixel_defs fbm_init split_def Let_def)

lemma height_pixel_perm:
  "init s \<Longrightarrow> init s' \<Longrightarrow> perm s = perm s' \<Longrightarrow>
     fst (height_pixel w h t x y (d, s)) = fst (height_pixel w h t x y (d, s'))"
  by (simp add: pixel_defs fbm_init split_def Let_def)

lemma loop_state:
  assumes "\<And>x y d. snd (body x y (d, s)) = s"
  shows "for_xy w h body (d, s) = (for_xy w h (\<lambda>x y d. fst (body x y (d, s))) d, s)"
  by (rule for_xy_state) (simp add: assms prod_eq_iff)


lemma loop_fst_cong:
  assumes "\<And>x y d. snd (body x y (d, s)) = s"
    and "\<And>x y d. snd (body x y (d, s')) = s'"
    and "\<And>x y d. fst (body x y (d, s)) = fst (body x y (d, s'))"
  shows "fst (for_xy w h body (d, s)) = fst (for_xy w h body (d, s'))"
    and "snd (for_xy w h body (d, s)) = s"
proof -
  have "(\<lambda>x y d. fst (body x y (d, s))) = (\<lambda>x y d. fst (body x y (d, s')))"
    by (intro ext) (rule assms(3))
  then show "fst (for_xy w h body (d, s)) = fst (for_xy w h body (d, s'))"
    by (simp add: loop_state [of body, OF assms(1)] loop_state [of body, OF assms(2)])
  show "snd (for_xy w h body (d, s)) = s"
    by (simp add: loop_state [of body, OF assms(1)])
qed

lemma organic_call:
  assumes "0 < w" "0 < h"
  shows "\<exists>c s1. createOrganicTexture w h t st = Inr (c, s1) \<and> init s1 \<and>
           perm s1 = perm (setup_perm st) \<and> passes s1 = passes st + 1 \<and>
           (\<forall>s. init s \<and> perm s = perm (setup_perm st) \<longrightarrow>
              imgData c = fst (for_xy w h (organic_pixel w h t) (replicate (4 * w * h) 0, s)))"
proof -
  define S where "S = (setup_perm st)\<lparr>passes := Suc (passes (setup_perm st))\<rparr>"
  define d0 where "d0 = replicate (4 * w * h) (0::nat)"
  have S: "init S" "perm S = perm (setup_perm st)" "passes S = passes st + 1"
    by (simp_all add: S_def init_setup_perm passes_setup_perm)
  have loop: "snd (for_xy w h (organic_pixel w h t') (d0, S)) = S" for t'
    by (rule loop_fst_cong(2) [where s' = S]) (simp_all add: organic_pixel_state S)
  have img: "fst (for_xy w h (organic_pixel w h t) (d0, S)) =
             fst (for_xy w h (organic_pixel w h t) (d0, s))"
    if "init s" "perm s = perm (setup_perm st)" for s
    by (rule loop_fst_cong(1))
      (simp_all add: organic_pixel_state S that organic_pixel_perm [of S s])
  have "createOrganicTexture w h t st =
      Inr (\<lparr>cwidth = w, cheight = h, imgData = fst (for_xy w h (organic_pixel w h t) (d0, S)),
             fills = (if t = Bamboo then fst (scuffs 30 w h S) else [])\<rparr>,
           if t = Bamboo then snd (scuffs 30 w h S) else S)"
    using assms
    by (simp add: createOrganicTexture_def createImageData_def split_def Let_def
        S_def [symmetric] d0_def [symmetric] loop)
  then have call: "createOrganicTexture w h t st =
      Inr (\<lparr>cwidth = w, cheight = h, imgData = fst (for_xy w h (organic_pixel w h t) (d0, S)),
             fills = (if t = Bamboo then fst (scuffs 30 w h S) else [])\<rparr>,
           if t = Bamboo then snd (scuffs 30 w h S) else S)" .
  let ?s1 = "if t = Bamboo then snd (scuffs 30 w h S) else S"
  have s1: "init ?s1" "perm ?s1 = perm (setup_perm st)" "passes ?s1 = passes st + 1"
    using S scuffs_state [of 30 w h S] by simp_all
  show ?thesis
  proof (intro exI conjI allI impI)
    show "createOrganicTexture w h t st = Inr (\<lparr>cwidth = w, cheight = h,
        imgData = fst (for_xy w h (organic_pixel w h t) (d0, S)),
        fills = (if t = Bamboo then fst (scuffs 30 w h S) else [])\<rparr>, ?s1)"
      by (rule call)
    show "init ?s1" "perm ?s1 = perm (setup_perm st)" "passes ?s1 = passes st + 1"
      by (rule s1)+
  next
    fix s :: state assume "init s \<and> perm s = perm (setup_perm st)"
    then show "imgData \<lparr>cwidth = w, cheight = h,
        imgData = fst (for_xy w h (organic_pixel w h t) (d0, S)),
        fills = (if t = Bamboo then fst (scuffs 30 w h S) else [])\<rparr> =
        fst (for_xy w h (organic_pixel w h t) (replicate (4 * w * h) 0, s))"
      using img [of s] by (simp add: d0_def)
  qed
qed

section \<open>Repeated requests\<close>

lemma roughness_call:
  assumes "0 < w" "0 < h"
  shows "\<exists>c s1. createRoughnessMap w h t st = Inr (c, s1) \<and> init s1 \<and>
           perm s1 = perm (setup_perm st) \<and> passes s1 = passes st + 1 \<and>
           (\<forall>s. init s \<and> perm s = perm (setup_perm st) \<longrightarrow>
              imgData c = fst (for_xy w h (roughness_pixel w h t) (replicate (4 * w * h) 0, s)))"
proof -
  define S where "S = (setup_perm st)\<lparr>passes := Suc (passes (setup_perm st))\<rparr>"
  define d0 where "d0 = replicate (4 * w * h) (0::nat)"
  have S: "init S" "perm S = perm (setup_perm st)" "passes S = passes st + 1"
    by (simp_all add: S_def init_setup_perm passes_setup_perm)
  have loop: "snd (for_xy w h (roughness_pixel w h t) (d0, S)) = S"
    by (rule loop_fst_cong(2) [where s' = S]) (simp_all add: roughness_pixel_state S)
  have img: "fst (for_xy w h (roughness_pixel w h t) (d0, S)) =
             fst (for_xy w h (roughness_pixel w h t) (d0, s))"
    if "init s" "perm s = perm (setup_perm st)" for s
    by (rule loop_fst_cong(1))
      (simp_all add: roughness_pixel_state S that roughness_pixel_perm [of S s])
  have call: "createRoughnessMap w h t st =
      Inr (\<lparr>cwidth = w, cheight = h, imgData = fst (for_xy w h (roughness_pixel w h t) (d0, S)),
             fills = []\<rparr>, S)"
    using assms
    by (simp add: createRoughnessMap_def createImageData_def split_def Let_def
        S_def [symmetric] d0_def [symmetric] loop)
  show ?thesis
  proof (intro exI conjI allI impI)
    show "createRoughnessMap w h t st = Inr (\<lparr>cwidth = w, cheight = h,
        imgData = fst (for_xy w h (roughness_pixel w h t) (d0, S)), fills = []\<rparr>, S)"
      by (rule call)
    show "init S" "perm S = perm (setup_perm st)" "passes S = passes st + 1"
      by (rule S)+
  next
    fix s :: state assume "init s \<and> perm s = perm (setup_perm st)"
    then show "imgData \<lparr>cwidth = w, cheight = h,
        imgData = fst (for_xy w h (roughness_pixel w h t) (d0, S)), fills = []\<rparr> =
        fst (for_xy w h (roughness_pixel w h t) (replicate (4 * w * h) 0, s))"
      using img [of s] by (simp add: d0_def)
  qed
qed

lemma height_map_init:
  assumes "init s"
  shows "snd (height_map w h t s) = s"
    and "init s' \<Longrightarrow> perm s' = perm s \<Longrightarrow> fst (height_map w h t s) = fst (height_map w h t s')"
proof -
  show "snd (height_map w h t s) = s"
    unfolding height_map_def
    by (rule loop_fst_cong(2) [where s' = s]) (simp_all add: height_pixel_state assms)
  show "fst (height_map w h t s) = fst (height_map w h t s')" if "init s'" "perm s' = perm s"
    unfolding height_map_def
    by (rule loop_fst_cong(1))
      (simp_all add: height_pixel_state assms that height_pixel_perm [of s s'])
qed

lemma normal_call:
  assumes "0 < w" "0 < h"
  shows "\<exists>c s1. createNormalMap w h k t st = Inr (c, s1) \<and> init s1 \<and>
           perm s1 = perm (setup_perm st) \<and> passes s1 = passes st + 1 \<and>
           (\<forall>s. init s \<and> perm s = perm (setup_perm st) \<longrightarrow>
              imgData c = for_xy w h (normal_pixel (fst (height_map w h t s)) w h k)
                          (replicate (4 * w * h) 0))"
proof -
  define S where "S = (setup_perm st)\<lparr>passes := Suc (passes (setup_perm st))\<rparr>"
  define d0 where "d0 = replicate (4 * w * h) (0::nat)"
  have S: "init S" "perm S = perm (setup_perm st)" "passes S = passes st + 1"
    by (simp_all add: S_def init_setup_perm passes_setup_perm)
  have call: "createNormalMap w h k t st =
      Inr (\<lparr>cwidth = w, cheight = h,
             imgData = for_xy w h (normal_pixel (fst (height_map w h t S)) w h k) d0,
             fills = []\<rparr>, S)"
    using assms
    by (simp add: createNormalMap_def createImageData_def split_def Let_def
        S_def [symmetric] d0_def [symmetric] height_map_init(1) [OF S(1)])
  show ?thesis
  proof (intro exI conjI allI impI)
    show "createNormalMap w h k t st = Inr (\<lparr>cwidth = w, cheight = h,
        imgData = for_xy w h (normal_pixel (fst (height_map w h t S)) w h k) d0,
        fills = []\<rparr>, S)"
      by (rule call)
    show "init S" "perm S = perm (setup_perm st)" "passes S = passes st + 1"
      by (rule S)+
  next
    fix s :: state assume "init s \<and> perm s = perm (setup_perm st)"
    then have "fst (height_map w h t S) = fst (height_map w h t s)"
      using height_map_init(2) [OF S(1), of s] S(2) by simp
    then show "imgData \<lparr>cwidth = w, cheight = h,
        imgData = for_xy w h (normal_pixel (fst (height_map w h t S)) w h k) d0,
        fills = []\<rparr> =
        for_xy w h (normal_pixel (fst (height_map w h t s)) w h k) (replicate (4 * w * h) 0)"
      by (simp add: d0_def)
  qed
qed

lemma repeat_call:
  fixes f :: "state \<Rightarrow> dom_error + canvas \<times> state" and F :: "state \<Rightarrow> nat list"
  assumes call: "\<And>st. \<exists>c s1. f st = Inr (c, s1) \<and> init s1 \<and>
           perm s1 = perm (setup_perm st) \<and> passes s1 = passes st + 1 \<and>
           (\<forall>s. init s \<and> perm s = perm (setup_perm st) \<longrightarrow> imgData c = F s)"
  shows "\<exists>c1 s1. f st = Inr (c1, s1) \<and> init s1 \<and> passes s1 = passes st + 1 \<and>
           (\<forall>s. init s \<and> perm s = perm s1 \<longrightarrow>
              (\<exists>c2 s2. f s = Inr (c2, s2) \<and> imgData c2 = imgData c1 \<and>
                 passes s2 = passes s + 1 \<and> init s2 \<and> perm s2 = perm s1))"
proof -
  obtain c1 s1 where 1: "f st = Inr (c1, s1)" "init s1" "perm s1 = perm (setup_perm st)"
      "passes s1 = passes st + 1"
      "\<And>s. init s \<Longrightarrow> perm s = perm (setup_perm st) \<Longrightarrow> imgData c1 = F s"
    using call [of st] by blast
  have "\<exists>c2 s2. f s = Inr (c2, s2) \<and> imgData c2 = imgData c1 \<and>
          passes s2 = passes s + 1 \<and> init s2 \<and> perm s2 = perm s1"
    if s: "init s" "perm s = perm s1" for s
  proof -
    obtain c2 s2 where 2: "f s = Inr (c2, s2)" "init s2" "perm s2 = perm (setup_perm s)"
        "passes s2 = passes s + 1"
        "\<And>s'. init s' \<Longrightarrow> perm s' = perm (setup_perm s) \<Longrightarrow> imgData c2 = F s'"
      using call [of s] by blast
    have "imgData c2 = F s" using 2(5) [of s] s by (simp add: setup_perm_init)
    moreover have "imgData c1 = F s" using 1(5) [of s] s 1(3) by simp
    ultimately show ?thesis using 2 s by (simp add: setup_perm_init)
  qed
  then show ?thesis using 1 by blast
qed

lemma organic_eq:
  assumes "0 < w" "0 < h"
  shows "createOrganicTexture w h t st =
      (let S = (setup_perm st)\<lparr>passes := Suc (passes (setup_perm st))\<rparr> in
       Inr (\<lparr>cwidth = w, cheight = h,
              imgData = fst (for_xy w h (organic_pixel w h t) (replicate (4 * w * h) 0, S)),
              fills = (if t = Bamboo then fst (scuffs 30 w h S) else [])\<rparr>,
            if t = Bamboo then snd (scuffs 30 w h S) else S))"
proof -
  define S where "S = (setup_perm st)\<lparr>passes := Suc (passes (setup_perm st))\<rparr>"
  define d0 where "d0 = replicate (4 * w * h) (0::nat)"
  have S: "init S" by (simp add: S_def init_setup_perm)
  have loop: "snd (for_xy w h (organic_pixel w h t') (d0, S)) = S" for t'
    by (rule loop_fst_cong(2) [where s' = S]) (simp_all add: organic_pixel_state S)
  show ?thesis
    using assms
    by (simp add: createOrganicTexture_def createImageData_def split_def Let_def
        S_def [symmetric] d0_def [symmetric] loop)
qed

lemma scuffs_head:
  "hd (fst (scuffs (Suc k) w h st)) =
     (rand st 0 * real w, rand st 1 * real h, 2 + rand st 2 * 5, 10 + rand st 3 * 30)"
  by (simp add: math_random_def split_def Let_def eval_nat_numeral)

lemma scuffs_rand: "rand (snd (scuffs k w h st)) n = rand st (n + 4 * k)"
proof (induction k arbitrary: st n)
  case 0
  then show ?case by simp
next
  case (Suc k)
  have "rand (snd (scuffs (Suc k) w h st)) n = rand st (Suc (Suc (Suc (Suc (n + 4 * k)))))"
    by (simp add: math_random_def split_def Let_def Suc.IH)
  also have "\<dots> = rand st (n + 4 * Suc k)"
    by (rule arg_cong [where f = "rand st"]) simp
  finally show ?case .
qed

lemma setup_perm_rand: "\<not> init st \<Longrightarrow> rand (setup_perm st) n = rand st (n + 255)"
  by (simp add: setup_perm_def split_def Let_def shuffle_state)

text \<open>
  C1 (as amended). There is no cache: every call of an entry point runs its pixel loops
  again, as the pass counter shows. What two calls with the same request share is the
  permutation table: for positive dimensions each of the three entry points succeeds,
  and any later call with the same arguments, from any state with the same initialised
  table, returns the same image data, each call adding one to the counter. The scuff
  rectangles of bamboo are outside this statement: they are drawn from fresh random
  numbers on each call.
\<close>

theorem repeated_request:
  assumes "0 < w" and "0 < h"
  shows "(\<exists>c1 s1. createOrganicTexture w h ot st = Inr (c1, s1) \<and> init s1 \<and>
            passes s1 = passes st + 1 \<and>
            (\<forall>s. init s \<and> perm s = perm s1 \<longrightarrow>
               (\<exists>c2 s2. createOrganicTexture w h ot s = Inr (c2, s2) \<and> imgData c2 = imgData c1 \<and>
                  passes s2 = passes s + 1 \<and> init s2 \<and> perm s2 = perm s1))) \<and>
         (\<exists>c1 s1. createRoughnessMap w h rt st = Inr (c1, s1) \<and> init s1 \<and>
            passes s1 = passes st + 1 \<and>
            (\<forall>s. init s \<and> perm s = perm s1 \<longrightarrow>
               (\<exists>c2 s2. createRoughnessMap w h rt s = Inr (c2, s2) \<and> imgData c2 = imgData c1 \<and>
                  passes s2 = passes s + 1 \<and> init s2 \<and> perm s2 = perm s1))) \<and>
         (\<exists>c1 s1. createNormalMap w h k nt st = Inr (c1, s1) \<and> init s1 \<and>
            passes s1 = passes st + 1 \<and>
            (\<forall>s. init s \<and> perm s = perm s1 \<longrightarrow>
               (\<exists>c2 s2. createNormalMap w h k nt s = Inr (c2, s2) \<and> imgData c2 = imgData c1 \<and>
                  passes s2 = passes s + 1 \<and> init s2 \<and> perm s2 = perm s1)))"
proof (intro conjI)
  show "\<exists>c1 s1. createOrganicTexture w h ot st = Inr (c1, s1) \<and> init s1 \<and>
            passes s1 = passes st + 1 \<and>
            (\<forall>s. init s \<and> perm s = perm s1 \<longrightarrow>
               (\<exists>c2 s2. createOrganicTexture w h ot s = Inr (c2, s2) \<and> imgData c2 = imgData c1 \<and>
                  passes s2 = passes s + 1 \<and> init s2 \<and> perm s2 = perm s1))"
    by (rule repeat_call) (rule organic_call [OF assms])
  show "\<exists>c1 s1. createRoughnessMap w h rt st = Inr (c1, s1) \<and> init s1 \<and>
            passes s1 = passes st + 1 \<and>
            (\<forall>s. init s \<and> perm s = perm s1 \<longrightarrow>
               (\<exists>c2 s2. createRoughnessMap w h rt s = Inr (c2, s2) \<and> imgData c2 = imgData c1 \<and>
                  passes s2 = passes s + 1 \<and> init s2 \<and> perm s2 = perm s1))"
    by (rule repeat_call) (rule roughness_call [OF assms])
  show "\<exists>c1 s1. createNormalMap w h k nt st = Inr (c1, s1) \<and> init s1 \<and>
            passes s1 = passes st + 1 \<and>
            (\<forall>s. init s \<and> perm s = perm s1 \<longrightarrow>
               (\<exists>c2 s2. createNormalMap w h k nt s = Inr (c2, s2) \<and> imgData c2 = imgData c1 \<and>
                  passes s2 = passes s + 1 \<and> init s2 \<and> perm s2 = perm s1))"
    by (rule repeat_call) (rule normal_call [OF assms])
qed

theorem repeated_request_witness:
  "(0::nat) < 2 \<and> (0::nat) < 3 \<and>
   (\<exists>c1 s1 c2 s2. createOrganicTexture 2 3 Bamboo (initial_state zero_rand) = Inr (c1, s1) \<and>
      createOrganicTexture 2 3 Bamboo s1 = Inr (c2, s2) \<and>
      imgData c2 = imgData c1 \<and> passes s1 = 1 \<and> passes s2 = 2) \<and>
   (\<exists>c1 s1 c2 s2. createRoughnessMap 2 3 SandR (initial_state zero_rand) = Inr (c1, s1) \<and>
      createRoughnessMap 2 3 SandR s1 = Inr (c2, s2) \<and>
      imgData c2 = imgData c1 \<and> passes s1 = 1 \<and> passes s2 = 2) \<and>
   (\<exists>c1 s1 c2 s2. createNormalMap 2 3 5 GenericN (initial_state zero_rand) = Inr (c1, s1) \<and>
      createNormalMap 2 3 5 GenericN s1 = Inr (c2, s2) \<and>
      imgData c2 = imgData c1 \<and> passes s1 = 1 \<and> passes s2 = 2)"
proof -
  let ?st = "initial_state zero_rand"
  have h: "(0::nat) < 2" "(0::nat) < 3" by simp_all
  have p0: "passes ?st = 0" by (simp add: initial_state_def)
  note r = repeated_request [OF h, of Bamboo ?st SandR 5 GenericN]
  have again: "\<exists>c1 s1 c2 s2. f ?st = Inr (c1, s1) \<and> f s1 = Inr (c2, s2) \<and>
      imgData c2 = imgData c1 \<and> passes s1 = 1 \<and> passes s2 = 2"
    if asm: "\<exists>c1 s1. f ?st = Inr (c1, s1) \<and> init s1 \<and> passes s1 = passes ?st + 1 \<and>
          (\<forall>s. init s \<and> perm s = perm s1 \<longrightarrow>
             (\<exists>c2 s2. f s = Inr (c2, s2) \<and> imgData c2 = imgData c1 \<and>
                passes s2 = passes s + 1 \<and> init s2 \<and> perm s2 = perm s1))"
    for f :: "state \<Rightarrow> dom_error + canvas \<times> state"
  proof -
    obtain c1 s1 where 1: "f ?st = Inr (c1, s1)" "init s1" "passes s1 = passes ?st + 1"
        "\<And>s. init s \<Longrightarrow> perm s = perm s1 \<Longrightarrow>
           \<exists>c2 s2. f s = Inr (c2, s2) \<and> imgData c2 = imgData c1 \<and> passes s2 = passes s + 1"
      using asm by blast
    obtain c2 s2 where 2: "f s1 = Inr (c2, s2)" "imgData c2 = imgData c1" "passes s2 = passes s1 + 1"
      using 1(4) [OF 1(2) refl] by blast
    show ?thesis using 1(1,3) 2 p0 by simp
  qed
  show ?thesis
    using h again [of "createOrganicTexture 2 3 Bamboo"] again [of "createRoughnessMap 2 3 SandR"]
      again [of "createNormalMap 2 3 5 GenericN"] r
    by blast
qed

text \<open>
  The claim as stated fails. Two identical requests run the pixel loop twice, and two
  identical bamboo requests draw different scuff rectangles over the same image data.
\<close>

theorem no_texture_cache:
  "(case createRoughnessMap 1 1 SandR (initial_state zero_rand) of
      Inl e \<Rightarrow> False
    | Inr (c1, s1) \<Rightarrow>
        (case createRoughnessMap 1 1 SandR s1 of
           Inl e \<Rightarrow> False
         | Inr (c2, s2) \<Rightarrow> passes s1 = 1 \<and> passes s2 = 2)) \<and>
   (case createOrganicTexture 1 1 Bamboo (initial_state step_rand) of
      Inl e \<Rightarrow> False
    | Inr (c1, s1) \<Rightarrow>
        (case createOrganicTexture 1 1 Bamboo s1 of
           Inl e \<Rightarrow> False
         | Inr (c2, s2) \<Rightarrow>
             hd (fills c1) = (0, 0, 2, 10) \<and> hd (fills c2) = (1 / 2, 1 / 2, 9 / 2, 25) \<and>
             passes s2 = 2))"
proof (intro conjI)
  let ?st = "initial_state zero_rand"
  obtain c1 s1 where 1: "createRoughnessMap 1 1 SandR ?st = Inr (c1, s1)" "init s1"
      "passes s1 = passes ?st + 1"
    using roughness_call [of 1 1 SandR ?st] by auto
  obtain c2 s2 where 2: "createRoughnessMap 1 1 SandR s1 = Inr (c2, s2)"
      "passes s2 = passes s1 + 1"
    using roughness_call [of 1 1 SandR s1] by auto
  show "case createRoughnessMap 1 1 SandR ?st of
      Inl e \<Rightarrow> False
    | Inr (c1, s1) \<Rightarrow>
        (case createRoughnessMap 1 1 SandR s1 of
           Inl e \<Rightarrow> False
         | Inr (c2, s2) \<Rightarrow> passes s1 = 1 \<and> passes s2 = 2)"
    using 1 2 by (simp add: initial_state_def)
next
  let ?st = "initial_state step_rand"
  define S1 where "S1 = (setup_perm ?st)\<lparr>passes := Suc (passes (setup_perm ?st))\<rparr>"
  define s1 where "s1 = snd (scuffs 30 1 1 S1)"
  define S2 where "S2 = (setup_perm s1)\<lparr>passes := Suc (passes (setup_perm s1))\<rparr>"
  have ni: "\<not> init ?st" by (simp add: initial_state_def)
  have r1: "rand S1 n = step_rand (n + 255)" for n
    using setup_perm_rand [OF ni] by (simp add: S1_def initial_state_def)
  have i1: "init s1" using scuffs_state [of 30 1 1 S1] by (simp add: s1_def S1_def init_setup_perm)
  have p1: "passes s1 = 1"
    using scuffs_state [of 30 1 1 S1]
    by (simp add: s1_def S1_def passes_setup_perm initial_state_def)
  have "rand s1 n = step_rand (n + 375)" for n
    unfolding s1_def scuffs_rand r1 by (simp add: add.commute)
  then have r2: "rand S2 n = step_rand (n + 375)" for n
    by (simp add: S2_def setup_perm_init i1)
  have p2: "passes S2 = 2" by (simp add: S2_def setup_perm_init i1 p1)
  have e1: "createOrganicTexture 1 1 Bamboo ?st =
      Inr (\<lparr>cwidth = 1, cheight = 1,
             imgData = fst (for_xy 1 1 (organic_pixel 1 1 Bamboo) (replicate 4 0, S1)),
             fills = fst (scuffs 30 1 1 S1)\<rparr>, s1)"
    by (simp add: organic_eq Let_def S1_def s1_def)
  have e2: "createOrganicTexture 1 1 Bamboo s1 =
      Inr (\<lparr>cwidth = 1, cheight = 1,
             imgData = fst (for_xy 1 1 (organic_pixel 1 1 Bamboo) (replicate 4 0, S2)),
             fills = fst (scuffs 30 1 1 S2)\<rparr>, snd (scuffs 30 1 1 S2))"
    by (simp add: organic_eq Let_def S2_def)
  have h1: "hd (fst (scuffs 30 1 1 S1)) = (0, 0, 2, 10)"
    using scuffs_head [of 29 1 1 S1] by (simp add: r1 step_rand_def)
  have h2: "hd (fst (scuffs 30 1 1 S2)) = (1 / 2, 1 / 2, 9 / 2, 25)"
    using scuffs_head [of 29 1 1 S2] by (simp add: r2 step_rand_def)
  have p3: "passes (snd (scuffs 30 1 1 S2)) = 2"
    using scuffs_state [of 30 1 1 S2] p2 by simp
  show "case createOrganicTexture 1 1 Bamboo ?st of
      Inl e \<Rightarrow> False
    | Inr (c1, s1) \<Rightarrow>
        (case createOrganicTexture 1 1 Bamboo s1 of
           Inl e \<Rightarrow> False
         | Inr (c2, s2) \<Rightarrow>
             hd (fills c1) = (0, 0, 2, 10) \<and> hd (fills c2) = (1 / 2, 1 / 2, 9 / 2, 25) \<and>
             passes s2 = 2)"
    using e1 e2 h1 h2 p3 by simp
qed

section \<open>Neighbours in the height buffer\<close>

lemma js_rem_nonneg: "0 \<le> a \<Longrightarrow> js_rem a b = a mod \<bar>b\<bar>"
  by (cases "a = 0") (simp_all add: js_rem_def)

lemma js_rem_pos: "0 \<le> a \<Longrightarrow> 0 < b \<Longrightarrow> js_rem a b = a mod b"
  by (simp add: js_rem_nonneg)

lemma left_col: "0 < w \<Longrightarrow> js_rem (int x - 1 + int w) (int w) = (int x - 1) mod int w"
  by (simp add: js_rem_pos)

lemma right_col: "0 < w \<Longrightarrow> js_rem (int x + 1) (int w) = (int x + 1) mod int w"
  by (simp add: js_rem_pos)

lemma index_wrapped:
  assumes "0 < w" "0 < h"
  shows "x1_index w x y = int y * int w + (int x - 1) mod int w"
    and "x2_index w x y = int y * int w + (int x + 1) mod int w"
    and "y1_index w h x y = ((int y - 1) mod int h) * int w + int x"
    and "y2_index w h x y = ((int y + 1) mod int h) * int w + int x"
  using assms by (simp_all add: x1_index_def x2_index_def y1_index_def y2_index_def left_col right_col)

lemma index_periodic:
  assumes "0 < w" "0 < h"
  shows "x1_index w (x + w) y = x1_index w x y"
    and "x2_index w (x + w) y = x2_index w x y"
    and "y1_index w h x (y + h) = y1_index w h x y"
    and "y2_index w h x (y + h) = y2_index w h x y"
proof -
  have shift: "(a + b + c) mod b = (a + c) mod b" for a b c :: int
    by (metis add.assoc add.commute mod_add_self1)
  have 1: "int (x + w) - 1 = int x + int w + (- 1)" and 2: "int (x + w) + 1 = int x + int w + 1"
    and 3: "int (y + h) - 1 = int y + int h + (- 1)" and 4: "int (y + h) + 1 = int y + int h + 1"
    by simp_all
  show "x1_index w (x + w) y = x1_index w x y"
    unfolding index_wrapped [OF assms] 1 shift by simp
  show "x2_index w (x + w) y = x2_index w x y"
    unfolding index_wrapped [OF assms] 2 shift by simp
  show "y1_index w h x (y + h) = y1_index w h x y"
    unfolding index_wrapped [OF assms] 3 shift by simp
  show "y2_index w h x (y + h) = y2_index w h x y"
    unfolding index_wrapped [OF assms] 4 shift by simp
qed

lemma index_in_range:
  assumes "x < w" "y < h"
  shows "0 \<le> x1_index w x y \<and> nat (x1_index w x y) < w * h"
    and "0 \<le> x2_index w x y \<and> nat (x2_index w x y) < w * h"
    and "0 \<le> y1_index w h x y \<and> nat (y1_index w h x y) < w * h"
    and "0 \<le> y2_index w h x y \<and> nat (y2_index w h x y) < w * h"
proof -
  have w: "0 < w" and h: "0 < h" using assms by simp_all
  have cell: "0 \<le> int r * int w + c \<and> nat (int r * int w + c) < w * h"
    if "r < h" "0 \<le> c" "c < int w" for r and c :: int
  proof -
    have "int r * int w + c < int r * int w + int w" using that by simp
    also have "\<dots> = int (Suc r * w)" by (simp add: algebra_simps)
    also have "\<dots> \<le> int (h * w)"
      using that(1) by (intro of_nat_mono mult_le_mono1) simp
    finally have "int r * int w + c < int (w * h)" by (simp add: mult.commute)
    moreover have "0 \<le> int r * int w + c" using that by simp
    ultimately show ?thesis by linarith
  qed
  have mw: "0 \<le> a mod int w \<and> a mod int w < int w" for a using w by simp
  have mh: "0 \<le> a mod int h \<and> nat (a mod int h) < h" for a
    using h by (simp add: nat_less_iff)
  show "0 \<le> x1_index w x y \<and> nat (x1_index w x y) < w * h"
    unfolding index_wrapped [OF w h] using cell [OF assms(2), of "(int x - 1) mod int w"] mw by simp
  show "0 \<le> x2_index w x y \<and> nat (x2_index w x y) < w * h"
    unfolding index_wrapped [OF w h] using cell [OF assms(2), of "(int x + 1) mod int w"] mw by simp
  have row: "0 \<le> a mod int h * int w + int x \<and> nat (a mod int h * int w + int x) < w * h" for a
    using cell [of "nat (a mod int h)" "int x"] mh [of a] assms(1) h by simp
  show "0 \<le> y1_index w h x y \<and> nat (y1_index w h x y) < w * h"
    unfolding index_wrapped [OF w h] by (rule row)
  show "0 \<le> y2_index w h x y \<and> nat (y2_index w h x y) < w * h"
    unfolding index_wrapped [OF w h] by (rule row)
qed

lemma f32_read_in:
  assumes "0 \<le> k \<and> nat k < length buf"
  shows "f32_read buf k = buf ! nat k"
  using assms by (simp add: f32_read_def)

text \<open>
  C6. The gradient loop reads the four neighbours of a pixel with wrap-around: the
  column and row of a neighbour are taken modulo the width and the height, so the left
  neighbour of column 0 is the last column and the right neighbour of the last column
  is column 0 (and likewise for rows); nothing is clamped. The horizontal difference of
  a pixel is the entry of the height buffer at the wrapped left neighbour minus the entry
  at the wrapped right neighbour, times the strength, and the vertical difference is
  formed from the wrapped upper and lower neighbours in the same way. The horizontal
  difference is periodic in the column with period \<open>width\<close>, so column \<open>width\<close> gives
  the same contribution as column 0, and the vertical difference is periodic in the row.
\<close>

theorem neighbours_wrap:
  assumes "0 < w" and "0 < h" and "x < w" and "y < h" and "length buffer = w * h"
  shows "x1_index w x y = int y * int w + (int x - 1) mod int w \<and>
         x2_index w x y = int y * int w + (int x + 1) mod int w \<and>
         y1_index w h x y = ((int y - 1) mod int h) * int w + int x \<and>
         y2_index w h x y = ((int y + 1) mod int h) * int w + int x \<and>
         x1_index w 0 y = int y * int w + (int w - 1) \<and>
         x2_index w (w - 1) y = int y * int w \<and>
         y1_index w h x 0 = (int h - 1) * int w + int x \<and>
         y2_index w h x (h - 1) = int x \<and>
         dx_at buffer w strength x y =
           dmul (dsub (buffer ! nat (int y * int w + (int x - 1) mod int w))
                      (buffer ! nat (int y * int w + (int x + 1) mod int w))) (Fin strength) \<and>
         dy_at buffer w h strength x y =
           dmul (dsub (buffer ! nat (((int y - 1) mod int h) * int w + int x))
                      (buffer ! nat (((int y + 1) mod int h) * int w + int x))) (Fin strength) \<and>
         dx_at buffer w strength 0 y =
           dmul (dsub (buffer ! (y * w + (w - 1))) (buffer ! (y * w + 1 mod w))) (Fin strength) \<and>
         dx_at buffer w strength (x + w) y = dx_at buffer w strength x y \<and>
         dx_at buffer w strength w y = dx_at buffer w strength 0 y \<and>
         dy_at buffer w h strength x (y + h) = dy_at buffer w h strength x y"
proof -
  note iw = index_wrapped [OF assms(1,2)]
  have a: "x1_index w 0 y = int y * int w + (int w - 1)"
    using assms(1) by (simp add: iw zmod_minus1)
  have b: "x2_index w (w - 1) y = int y * int w"
    using assms(1) by (simp add: iw of_nat_diff)
  have c: "y1_index w h x 0 = (int h - 1) * int w + int x"
    using assms(2) by (simp add: iw zmod_minus1)
  have d: "y2_index w h x (h - 1) = int x"
    using assms(2) by (simp add: iw of_nat_diff)
  have e: "dx_at buffer w strength (x + w) y = dx_at buffer w strength x y" for x
    by (simp add: dx_at_def index_periodic [OF assms(1,2)])
  have f: "dy_at buffer w h strength x (y + h) = dy_at buffer w h strength x y"
    by (simp add: dy_at_def index_periodic [OF assms(1,2)])
  note ir = index_in_range [OF assms(3,4), folded assms(5)]
  have g: "dx_at buffer w strength x y =
      dmul (dsub (buffer ! nat (x1_index w x y)) (buffer ! nat (x2_index w x y))) (Fin strength)"
    unfolding dx_at_def Let_def f32_read_in [OF ir(1)] f32_read_in [OF ir(2)] ..
  have k: "dy_at buffer w h strength x y =
      dmul (dsub (buffer ! nat (y1_index w h x y)) (buffer ! nat (y2_index w h x y))) (Fin strength)"
    unfolding dy_at_def Let_def f32_read_in [OF ir(3)] f32_read_in [OF ir(4)] ..
  note ir0 = index_in_range [OF assms(1,4), folded assms(5)]
  have "dx_at buffer w strength 0 y =
      dmul (dsub (buffer ! nat (x1_index w 0 y)) (buffer ! nat (x2_index w 0 y))) (Fin strength)"
    unfolding dx_at_def Let_def f32_read_in [OF ir0(1)] f32_read_in [OF ir0(2)] ..
  moreover have "nat (x1_index w 0 y) = y * w + (w - 1)"
    unfolding a using assms(1) by (simp add: nat_add_distrib nat_mult_distrib of_nat_diff)
  moreover have "nat (x2_index w 0 y) = y * w + 1 mod w"
    unfolding iw using assms(1)
    by (simp add: nat_add_distrib nat_mult_distrib nat_mod_distrib flip: of_nat_mod)
  ultimately have m: "dx_at buffer w strength 0 y =
      dmul (dsub (buffer ! (y * w + (w - 1))) (buffer ! (y * w + 1 mod w))) (Fin strength)"
    by simp
  have e0: "dx_at buffer w strength w y = dx_at buffer w strength 0 y"
    using e [of 0] by simp
  note g' = g [unfolded iw] and k' = k [unfolded iw]
  show ?thesis
    by (intro conjI iw a b c d g' k' m e e0 f)
qed

theorem neighbours_wrap_witness:
  "(0::nat) < 4 \<and> (0::nat) < 3 \<and> (0::nat) < 4 \<and> (2::nat) < 3 \<and>
   length (map (\<lambda>n. Fin (real n)) [0..<12]) = 4 * 3 \<and>
   x1_index 4 0 2 = 11 \<and> x2_index 4 0 2 = 9 \<and> y1_index 4 3 0 2 = 4 \<and> y2_index 4 3 0 2 = 0 \<and>
   x2_index 4 3 2 = 8 \<and> y1_index 4 3 0 0 = 8 \<and>
   dx_at (map (\<lambda>n. Fin (real n)) [0..<12]) 4 5 0 2 = Fin 10 \<and>
   dy_at (map (\<lambda>n. Fin (real n)) [0..<12]) 4 3 5 0 2 = Fin 20 \<and>
   dx_at (map (\<lambda>n. Fin (real n)) [0..<12]) 4 5 4 2 = Fin 10 \<and>
   dy_at (map (\<lambda>n. Fin (real n)) [0..<12]) 4 3 5 0 5 = Fin 20"
proof -
  have h: "(0::nat) < 4" "(0::nat) < 3" "(0::nat) < 4" "(2::nat) < 3"
    "length (map (\<lambda>n. Fin (real n)) [0..<12]) = 4 * 3" by simp_all
  have v: "dmul (dsub (Fin 11) (Fin 9)) (Fin 5) = Fin 10" "dmul (dsub (Fin 4) (Fin 0)) (Fin 5) = Fin 20"
    by (simp_all add: dmul_def dsub_def jsub_def overflow_bound_def flush_def)
  show ?thesis
    using h v neighbours_wrap [OF h, of 5] by simp
qed

section \<open>The range of doubles in the deriver\<close>

lemma overflow_bound_gt: "2 ^ 1023 < overflow_bound"
  by (simp add: overflow_bound_def)

lemma flush_abs_le: "\<bar>flush r\<bar> \<le> \<bar>r\<bar>"
  by (simp add: flush_def)

lemma flush_keep: "1 / 2 ^ 1075 < \<bar>r\<bar> \<Longrightarrow> flush r = r"
  by (simp add: flush_def)

lemma flush_cases: "flush r = 0 \<and> \<bar>r\<bar> \<le> 1 / 2 ^ 1075 \<or> flush r = r \<and> 1 / 2 ^ 1075 < \<bar>r\<bar>"
  by (simp add: flush_def)

lemma to_double_in: "\<bar>r\<bar> \<le> 2 ^ 1023 \<Longrightarrow> to_double (Fin r) = Fin (flush r)"
  using overflow_bound_gt by simp

lemma pow_mono: "m \<le> n \<Longrightarrow> (2::real) ^ m \<le> 2 ^ n"
  by (rule power_increasing) simp_all

lemma inv_pow_less: "m < n \<Longrightarrow> 1 / (2::real) ^ n < 1 / 2 ^ m"
  by (simp add: field_simps power_strict_increasing)


lemma d_ops_fin:
  "dsub (Fin a) (Fin b) = to_double (Fin (a - b))"
  "dmul (Fin a) (Fin b) = to_double (Fin (a * b))"
  "dadd (Fin a) (Fin b) = to_double (Fin (a + b))"
  "b \<noteq> 0 \<Longrightarrow> ddiv (Fin a) (Fin b) = to_double (Fin (a / b))"
  "0 \<le> a \<Longrightarrow> dsqrt (Fin a) = to_double (Fin (sqrt a))"
  by (simp_all add: dsub_def dmul_def dadd_def ddiv_def dsqrt_def jsub_def)

lemma scaled_diff_fin:
  assumes s: "\<bar>s\<bar> \<le> 2 ^ 500" and b: "\<bar>a\<bar> \<le> 2" "\<bar>b\<bar> \<le> 2"
  shows "dmul (dsub (Fin a) (Fin b)) (Fin s) = Fin (scaled_diff a b s)"
    and "\<bar>scaled_diff a b s\<bar> \<le> 2 ^ 502"
proof -
  have "\<bar>a - b\<bar> \<le> 4" using b by linarith
  then have e: "\<bar>flush (a - b)\<bar> \<le> 4" using flush_abs_le [of "a - b"] by linarith
  have "\<bar>a - b\<bar> \<le> 2 ^ 1023"
    using \<open>\<bar>a - b\<bar> \<le> 4\<close> pow_mono [of 2 1023] by simp
  then have 1: "to_double (Fin (a - b)) = Fin (flush (a - b))"
    by (rule to_double_in)
  have "\<bar>flush (a - b) * s\<bar> \<le> 4 * 2 ^ 500"
    unfolding abs_mult using e s by (intro mult_mono) simp_all
  then have p: "\<bar>flush (a - b) * s\<bar> \<le> 2 ^ 502" by simp
  then have "\<bar>flush (a - b) * s\<bar> \<le> 2 ^ 1023"
    using pow_mono [of 502 1023] by linarith
  then show "dmul (dsub (Fin a) (Fin b)) (Fin s) = Fin (scaled_diff a b s)"
    unfolding 1 d_ops_fin scaled_diff_def by (rule to_double_in)
  show "\<bar>scaled_diff a b s\<bar> \<le> 2 ^ 502"
    unfolding scaled_diff_def using flush_abs_le [of "flush (a - b) * s"] p by linarith
qed

lemma dz_of_in_range:
  assumes "1 / 2 ^ 500 \<le> \<bar>s\<bar>" "\<bar>s\<bar> \<le> 2 ^ 500"
  shows "dz_of s = Fin (1 / s)" and "1 / 2 ^ 500 \<le> \<bar>1 / s\<bar>" and "\<bar>1 / s\<bar> \<le> 2 ^ 500"
proof -
  have pos: "0 < \<bar>s\<bar>" using assms(1) by (smt (verit) divide_pos_pos zero_less_power zero_less_numeral zero_less_one)
  then have s0: "s \<noteq> 0" by auto
  show lo: "1 / 2 ^ 500 \<le> \<bar>1 / s\<bar>"
    using assms(2) pos by (simp add: field_simps)
  show hi: "\<bar>1 / s\<bar> \<le> 2 ^ 500"
    using assms(1) pos by (simp add: field_simps)
  have "\<bar>1 / s\<bar> \<le> 2 ^ 1023" using hi pow_mono [of 500 1023] by linarith
  moreover have "1 / 2 ^ 1075 < \<bar>1 / s\<bar>"
    using lo inv_pow_less [of 500 1075] by linarith
  ultimately show "dz_of s = Fin (1 / s)"
    using s0 by (simp add: dz_of_def d_ops_fin to_double_in flush_keep del: to_double.simps)
qed


lemma flush_square:
  assumes "\<bar>d\<bar> \<le> 2 ^ 502"
  shows "dmul (Fin d) (Fin d) = Fin (flush (d * d))"
    and "0 \<le> flush (d * d)" and "flush (d * d) \<le> 2 ^ 1004"
    and "flush (d * d) \<le> d * d" and "d * d \<le> flush (d * d) + 1 / 2 ^ 1075"
    and "flush (d * d) = 0 \<or> 1 / 2 ^ 1075 < flush (d * d)"
proof -
  have nn: "0 \<le> d * d" by simp
  have "\<bar>d\<bar> * \<bar>d\<bar> \<le> 2 ^ 502 * 2 ^ 502"
    using assms by (intro mult_mono) simp_all
  then have sq: "d * d \<le> 2 ^ 1004" by (simp add: abs_mult_self_eq)
  then have "\<bar>d * d\<bar> \<le> 2 ^ 1023" using nn pow_mono [of 1004 1023] by linarith
  then show "dmul (Fin d) (Fin d) = Fin (flush (d * d))"
    unfolding d_ops_fin by (rule to_double_in)
  show "0 \<le> flush (d * d)" using nn by (simp add: flush_def)
  show "flush (d * d) \<le> 2 ^ 1004" using sq nn by (simp add: flush_def)
  show "flush (d * d) \<le> d * d" using nn by (simp add: flush_def)
  show "d * d \<le> flush (d * d) + 1 / 2 ^ 1075" using nn by (simp add: flush_def)
  show "flush (d * d) = 0 \<or> 1 / 2 ^ 1075 < flush (d * d)"
    using nn by (simp add: flush_def)
qed

lemma vec_len_range:
  assumes z: "1 / 2 ^ 500 \<le> \<bar>dz\<bar>" "\<bar>dz\<bar> \<le> 2 ^ 500"
    and x: "\<bar>dx\<bar> \<le> 2 ^ 502" and y: "\<bar>dy\<bar> \<le> 2 ^ 502"
  shows "dsqrt (dadd (dadd (dmul (Fin dx) (Fin dx)) (dmul (Fin dy) (Fin dy))) (dmul (Fin dz) (Fin dz))) =
           Fin (vec_len dx dy dz)"
    and "1 / 2 ^ 500 \<le> vec_len dx dy dz" and "vec_len dx dy dz \<le> 2 ^ 503"
    and "\<bar>dz\<bar> \<le> vec_len dx dy dz"
    and "1 / 2 ^ 1000 \<le> (vec_len dx dy dz)\<^sup>2"
    and "(vec_len dx dy dz)\<^sup>2 = flush (dx * dx) + flush (dy * dy) + dz * dz"
proof -
  define X2 where "X2 = flush (dx * dx)"
  define Y2 where "Y2 = flush (dy * dy)"
  define Z2 where "Z2 = dz * dz"
  define L2 where "L2 = X2 + Y2 + Z2"
  note fx = flush_square [OF x, folded X2_def]
  note fy = flush_square [OF y, folded Y2_def]
  have "\<bar>dz\<bar> * \<bar>dz\<bar> \<le> 2 ^ 500 * 2 ^ 500"
    using z(2) by (intro mult_mono) simp_all
  then have zhi: "Z2 \<le> 2 ^ 1000" by (simp add: Z2_def abs_mult_self_eq)
  have "1 / 2 ^ 500 * (1 / 2 ^ 500) \<le> \<bar>dz\<bar> * \<bar>dz\<bar>"
    using z(1) by (intro mult_mono) simp_all
  then have zlo: "1 / 2 ^ 1000 \<le> Z2" by (simp add: Z2_def abs_mult_self_eq)
  have zu: "1 / 2 ^ 1075 < Z2" using zlo inv_pow_less [of 1000 1075] by linarith
  have "\<bar>Z2\<bar> \<le> 2 ^ 1023" using zhi zlo pow_mono [of 1000 1023] by simp
  then have "to_double (Fin Z2) = Fin (flush Z2)" by (rule to_double_in)
  moreover have "flush Z2 = Z2" using zu by (intro flush_keep) simp
  ultimately have mz: "dmul (Fin dz) (Fin dz) = Fin Z2"
    by (simp add: d_ops_fin Z2_def del: to_double.simps)
  have xy_keep: "flush (X2 + Y2) = X2 + Y2"
    using fx(2,6) fy(2,6) by (auto simp: flush_def)
  have "\<bar>X2 + Y2\<bar> \<le> 2 ^ 1004 + 2 ^ 1004" using fx(2,3) fy(2,3) by linarith
  then have "\<bar>X2 + Y2\<bar> \<le> 2 ^ 1023" using pow_mono [of 1005 1023] by simp
  then have "to_double (Fin (X2 + Y2)) = Fin (flush (X2 + Y2))" by (rule to_double_in)
  then have axy: "dadd (Fin X2) (Fin Y2) = Fin (X2 + Y2)"
    by (simp add: d_ops_fin xy_keep del: to_double.simps)
  have l2lo: "1 / 2 ^ 1000 \<le> L2" unfolding L2_def using fx(2) fy(2) zlo by linarith
  have l2hi: "L2 \<le> 2 ^ 1006"
  proof -
    have "L2 \<le> 2 ^ 1004 + 2 ^ 1004 + 2 ^ 1000" unfolding L2_def using fx(3) fy(3) zhi by linarith
    also have "\<dots> \<le> 2 ^ 1006" by simp
    finally show ?thesis .
  qed
  have "\<bar>L2\<bar> \<le> 2 ^ 1023" using l2lo l2hi pow_mono [of 1006 1023] by simp
  then have "to_double (Fin L2) = Fin (flush L2)" by (rule to_double_in)
  moreover have "flush L2 = L2"
    using l2lo inv_pow_less [of 1000 1075] by (intro flush_keep) simp
  ultimately have al: "dadd (Fin (X2 + Y2)) (Fin Z2) = Fin L2"
    by (simp add: d_ops_fin L2_def del: to_double.simps)
  have len: "vec_len dx dy dz = sqrt L2"
    by (simp add: vec_len_def L2_def X2_def Y2_def Z2_def)
  have "(1 / 2 ^ 500)\<^sup>2 \<le> L2" using l2lo by (simp add: power_divide)
  then show lo: "1 / 2 ^ 500 \<le> vec_len dx dy dz"
    unfolding len by (rule real_le_rsqrt)
  have "L2 \<le> (2 ^ 503)\<^sup>2" using l2hi by simp
  then show hi: "vec_len dx dy dz \<le> 2 ^ 503"
    unfolding len by (intro real_le_lsqrt) simp_all
  have "\<bar>dz\<bar>\<^sup>2 \<le> L2" unfolding L2_def using fx(2) fy(2) by (simp add: Z2_def power2_eq_square)
  then show "\<bar>dz\<bar> \<le> vec_len dx dy dz"
    unfolding len by (rule real_le_rsqrt)
  have l0: "0 \<le> L2" using l2lo by (smt (verit) divide_nonneg_nonneg zero_le_power zero_le_numeral zero_le_one)
  have sq: "(vec_len dx dy dz)\<^sup>2 = L2" unfolding len using l0 by simp
  show "1 / 2 ^ 1000 \<le> (vec_len dx dy dz)\<^sup>2" unfolding sq by (rule l2lo)
  show "(vec_len dx dy dz)\<^sup>2 = flush (dx * dx) + flush (dy * dy) + dz * dz"
    unfolding sq L2_def X2_def Y2_def Z2_def ..
  have "\<bar>sqrt L2\<bar> \<le> 2 ^ 1023"
    using hi lo pow_mono [of 503 1023] unfolding len by simp
  then have "to_double (Fin (sqrt L2)) = Fin (flush (sqrt L2))" by (rule to_double_in)
  moreover have "flush (sqrt L2) = sqrt L2"
    using lo inv_pow_less [of 500 1075] unfolding len by (intro flush_keep) simp
  ultimately have "dsqrt (Fin L2) = Fin (sqrt L2)"
    using l0 by (simp add: d_ops_fin del: to_double.simps)
  then show "dsqrt (dadd (dadd (dmul (Fin dx) (Fin dx)) (dmul (Fin dy) (Fin dy))) (dmul (Fin dz) (Fin dz))) =
           Fin (vec_len dx dy dz)"
    unfolding fx(1) fy(1) mz axy al len .
qed

section \<open>Heights and the image of the normal map\<close>

lemma noise3_integer: "noise3 p (of_int i) (of_int j) (of_int k) = 0"
  by (simp add: noise3_def Let_def fade_zero lerp_zero grad_origin)

lemma fbm_spec_finite:
  assumes "0 < p" "0 < n"
  shows "fbm_spec P x y z n p s =
     Fin ((\<Sum>i<n. noise3 P (x * (s * 2 ^ i)) (y * (s * 2 ^ i)) (z * (s * 2 ^ i)) * p ^ i)
          / (\<Sum>i<n. p ^ i))"
proof -
  have "0 < (\<Sum>i<n. p ^ i)"
    using assms by (intro sum_pos) auto
  then show ?thesis by (simp add: fbm_spec_def)
qed

lemma block_other:
  assumes "j div 4 \<noteq> k"
  shows "j \<noteq> k * 4" "j \<noteq> Suc (k * 4)" "j \<noteq> Suc (Suc (k * 4))" "j \<noteq> Suc (Suc (Suc (k * 4)))"
  using assms by auto

lemma normal_map_image:
  assumes "0 < w" "0 < h"
  shows "\<exists>cv s1. createNormalMap w h strength nt st = Inr (cv, s1) \<and>
           imgData cv = for_xy w h (normal_pixel (fst (height_map w h nt (setup_perm st))) w h strength)
                        (replicate (4 * w * h) 0)"
  using normal_call [OF assms, of strength nt st] init_setup_perm [of st] by blast

lemma noise3_z_lattice: "noise3 p 0 0 (99 * 2 ^ i) = 0"
  using noise3_integer [of p 0 0 "99 * 2 ^ i"] by simp

lemma flat_height_map:
  assumes "init s"
  shows "fst (height_map 1 1 GenericN s) = [Fin 0]"
  using assms
  by (simp add: height_map_def for_xy_def height_pixel_def fbm_init fbm_spec_finite
      noise3_z_lattice Let_def)

section \<open>The range of the noise and the sand roughness\<close>

lemma grad_bound:
  assumes "\<bar>x\<bar> \<le> 1" "\<bar>y\<bar> \<le> 1" "\<bar>z\<bar> \<le> 1"
  shows "\<bar>grad h x y z\<bar> \<le> 2"
  using assms by (auto simp: grad_def Let_def)

lemma fade_unit:
  assumes "0 \<le> t" "t \<le> 1"
  shows "0 \<le> fade t" and "fade t \<le> 1"
proof -
  have q: "0 < t * (t * 6 - 15) + 10"
  proof -
    have "t * (t * 6 - 15) + 10 = 6 * (t - 5 / 4)\<^sup>2 + 5 / 8"
      by (simp add: power2_eq_square algebra_simps)
    moreover have "0 \<le> 6 * (t - 5 / 4)\<^sup>2" by simp
    ultimately show ?thesis by linarith
  qed
  have "0 \<le> t * t * t" using assms(1) by simp
  moreover have "0 \<le> t * (t * 6 - 15) + 10" using q by simp
  ultimately show "0 \<le> fade t" unfolding fade_def by (rule mult_nonneg_nonneg)
  have sym: "1 - fade t = (1 - t) * (1 - t) * (1 - t) * (6 * t * t + 3 * t + 1)"
    by (simp add: fade_def algebra_simps)
  have "0 \<le> (1 - t) * (1 - t) * (1 - t)" using assms(2) by simp
  moreover have "0 \<le> 6 * t * t + 3 * t + 1" using assms(1) by simp
  ultimately have "0 \<le> 1 - fade t" unfolding sym by (rule mult_nonneg_nonneg)
  then show "fade t \<le> 1" by simp
qed

lemma lerp_bound:
  assumes "0 \<le> t" "t \<le> 1" "\<bar>a\<bar> \<le> m" "\<bar>b\<bar> \<le> m"
  shows "\<bar>lerp t a b\<bar> \<le> m"
proof -
  have eq: "lerp t a b = (1 - t) * a + t * b" by (simp add: lerp_def algebra_simps)
  have "\<bar>(1 - t) * a\<bar> \<le> (1 - t) * m"
    using assms(2,3) by (simp add: abs_mult mult_left_mono)
  moreover have "\<bar>t * b\<bar> \<le> t * m"
    using assms(1,4) by (simp add: abs_mult mult_left_mono)
  ultimately have "\<bar>(1 - t) * a + t * b\<bar> \<le> (1 - t) * m + t * m" by linarith
  then show ?thesis by (simp add: eq algebra_simps)
qed

lemma frac_unit:
  fixes x :: real
  shows "0 \<le> x - of_int \<lfloor>x\<rfloor>" "x - of_int \<lfloor>x\<rfloor> \<le> 1" "\<bar>x - of_int \<lfloor>x\<rfloor>\<bar> \<le> 1"
    "\<bar>x - of_int \<lfloor>x\<rfloor> - 1\<bar> \<le> 1"
  by linarith+

lemma noise3_bound: "\<bar>noise3 p x y z\<bar> \<le> 2"
  unfolding noise3_def Let_def
  by (intro lerp_bound fade_unit grad_bound frac_unit)


lemma edge_draw: "k \<le> 255 \<Longrightarrow> \<lfloor>255 / 256 * (real k + 1)\<rfloor> = int k"
  by (rule floor_unique) (simp_all add: field_simps)

lemma swap_entries_same: "swap_entries p i i = p"
  by (simp add: swap_entries_def u8_read_def u8_write_def Let_def)

lemma shuffle_edge:
  "\<forall>n. rand st n = 255 / 256 \<Longrightarrow> i \<le> 255 \<Longrightarrow> fst (shuffle i p st) = p"
proof (induction i arbitrary: p st)
  case 0
  then show ?case by simp
next
  case (Suc i)
  let ?st' = "st\<lparr>rand := (\<lambda>n. rand st (Suc n))\<rparr>"
  have r0: "rand st 0 = 255 / 256" using Suc.prems(1) by blast
  have dr: "\<lfloor>rand st 0 * (real (Suc i) + 1)\<rfloor> = int (Suc i)"
    unfolding r0 by (rule edge_draw) (rule Suc.prems(2))
  have "fst (shuffle (Suc i) p st) =
      fst (shuffle i (swap_entries p (int (Suc i)) \<lfloor>rand st 0 * (real (Suc i) + 1)\<rfloor>) ?st')"
    by (simp add: math_random_def)
  also have "\<dots> = fst (shuffle i p ?st')"
    unfolding dr swap_entries_same ..
  also have "\<dots> = p"
    by (rule Suc.IH) (use Suc.prems in simp_all)
  finally show ?case .
qed

lemma setup_perm_edge: "perm (setup_perm (initial_state edge_rand)) = id_table"
proof -
  let ?st = "initial_state edge_rand"
  have "fst (shuffle 255 (map of_nat [0..<256]) ?st) = map of_nat [0..<256]"
    by (rule shuffle_edge) (simp_all add: initial_state_def edge_rand_def)
  then have "perm (setup_perm ?st) = mirror (map of_nat [0..<256]) (replicate 512 0)"
    by (simp add: setup_perm_def split_def Let_def shuffle_state initial_state_def)
  then show ?thesis by (simp add: mirror_eq id_table_def)
qed

lemma id_table_at: "k < 512 \<Longrightarrow> perm_at id_table (Some k) = Some (k mod 256)"
proof (cases "k < 256")
  case True
  then show ?thesis by (simp add: perm_at_def id_table_def nth_append unat_of_nat)
next
  case False
  assume "k < 512"
  then obtain j where j: "k = 256 + j" "j < 256" using False by (metis add_diff_inverse_nat
    less_diff_conv2 linorder_not_less numeral_Bit0 nat_add_left_cancel_less)
  then show ?thesis by (simp add: perm_at_def id_table_def nth_append unat_of_nat)
qed

lemma noise_sample: "noise3 id_table (75 / 2) 0 0 = - 1 / 2"
  by (simp add: noise3_def Let_def cell_def id_table_at plus_ix_def fade_def lerp_def grad_def)


lemma roughness_val_state: "init s \<Longrightarrow> snd (roughness_val t nx ny s) = s"
  by (simp add: roughness_val_def fbm_init split_def Let_def)

lemma roughness_bytes:
  assumes s: "init s" and xy: "x < w" "y < h" "c < 4"
  shows "fst (for_xy w h (roughness_pixel w h t) (replicate (4 * w * h) 0, s)) ! ((y * w + x) * 4 + c) =
     (let b = to_uint8_clamp (jmul (fst (roughness_val t (real x / real w) (real y / real h) s)) (Fin 255))
      in [b, b, b, 255] ! c)"
proof -
  let ?g = "\<lambda>x y d. fst (roughness_pixel w h t x y (d, s))"
  let ?V = "\<lambda>x y c. (let b = to_uint8_clamp
      (jmul (fst (roughness_val t (real x / real w) (real y / real h) s)) (Fin 255))
      in [b, b, b, 255] ! c)"
  have g: "?g x y d = (let b = to_uint8_clamp
      (jmul (fst (roughness_val t (real x / real w) (real y / real h) s)) (Fin 255))
      in d[(y * w + x) * 4 := b, (y * w + x) * 4 + 1 := b, (y * w + x) * 4 + 2 := b,
           (y * w + x) * 4 + 3 := 255])" for x y d
    by (simp add: roughness_pixel_def split_def Let_def)
  have "for_xy w h (roughness_pixel w h t) (replicate (4 * w * h) 0, s) =
        (for_xy w h ?g (replicate (4 * w * h) 0), s)"
    by (rule loop_state) (simp add: roughness_pixel_state s)
  moreover have "for_xy w h ?g (replicate (4 * w * h) 0) ! ((y * w + x) * 4 + c) = ?V x y c"
  proof (rule for_xy_blocks(1) [where n = 4 and g = ?g and V = ?V])
    show "length (?g x y d) = length d" for x y d
      by (simp add: g Let_def)
    show "?g x y d ! j = d ! j" if "j div 4 \<noteq> y * w + x" for x y d j
      using block_other [OF that] by (simp add: g Let_def)
    show "?g x y d ! ((y * w + x) * 4 + c) = ?V x y c"
      if c4: "c < 4" and inside: "(y * w + x) * 4 + c < length d" for x y d c
    proof -
      have "c = 0 \<or> c = 1 \<or> c = 2 \<or> c = 3" using c4 by linarith
      then show ?thesis
        using inside by (elim disjE) (simp_all add: g Let_def)
    qed
    show "x < w" "y < h" "c < 4" by (rule xy)+
    have "y * w + x < y * w + w" using xy(1) by simp
    also have "\<dots> = Suc y * w" by simp
    also have "\<dots> \<le> h * w" using xy(2) by (intro mult_le_mono1) simp
    finally have "(y * w + x) * 4 + c < h * w * 4" using xy(3) by simp
    then show "(y * w + x) * 4 + c < length (replicate (4 * w * h) (0::nat))"
      by (simp add: mult.commute mult.left_commute)
  qed
  ultimately show ?thesis by simp
qed

lemma sand_val:
  "fbm_spec P a b 0 2 (1 / 2) 1 = Fin ((noise3 P a b 0 + noise3 P (a * 2) (b * 2) 0 / 2) / (3 / 2))"
  by (simp add: fbm_spec_finite lessThan_Suc numeral_2_eq_2)

lemma sand_sample_bound:
  "\<bar>(noise3 P a b 0 + noise3 P (a * 2) (b * 2) 0 / 2) / (3 / 2)\<bar> \<le> 2"
  using noise3_bound [of P a b 0] noise3_bound [of P "a * 2" "b * 2" 0] by (simp add: field_simps)

lemma to_uint8_clamp_lower:
  assumes "real k \<le> v" "k \<le> 255"
  shows "k \<le> to_uint8_clamp (Fin v)"
proof (cases "255 \<le> v")
  case True
  then show ?thesis using assms by simp
next
  case False
  have "int k \<le> \<lfloor>v\<rfloor>" using assms(1) by (simp add: le_floor_iff)
  then have "k \<le> nat \<lfloor>v\<rfloor>" "k \<le> nat (\<lfloor>v\<rfloor> + 1)" by linarith+
  then show ?thesis using False assms by (auto simp: Let_def)
qed


lemma sand_roughness_val:
  assumes "init s"
  shows "fst (fbm s (nx * 100) (ny * 100) 0 2 0.5 1) =
           Fin ((noise3 (perm s) (nx * 100) (ny * 100) 0 +
                 noise3 (perm s) (nx * 100 * 2) (ny * 100 * 2) 0 / 2) / (3 / 2))"
    and "fst (roughness_val SandR nx ny s) =
           Fin (0.8 + (noise3 (perm s) (nx * 100) (ny * 100) 0 +
                       noise3 (perm s) (nx * 100 * 2) (ny * 100 * 2) 0 / 2) / (3 / 2) * 0.2)"
  using assms sand_val [of "perm s" "nx * 100" "ny * 100"]
  by (simp_all add: roughness_val_def fbm_init split_def Let_def)

text \<open>
  C3 (as amended). The noise sample is signed, so a sand pixel can lie below the base
  0.8. For every pixel of the sand roughness map the value written is
  \<open>0.8 + 0.2 n\<close>, where \<open>n\<close> is the two-octave sample of that pixel; \<open>n\<close> lies
  between -2 and 2, the value is below 0.8 exactly when \<open>n\<close> is negative, and it is
  never below 0.4: the byte stored is at least 102, so no sand pixel is near zero.
\<close>

theorem sand_roughness_range:
  assumes "x < w" and "y < h"
  shows "\<exists>cv s1 n. createRoughnessMap w h SandR st = Inr (cv, s1) \<and>
           fst (fbm (setup_perm st) (real x / real w * 100) (real y / real h * 100) 0 2 0.5 1) = Fin n \<and>
           fst (roughness_val SandR (real x / real w) (real y / real h) (setup_perm st)) =
             Fin (0.8 + n * 0.2) \<and>
           \<bar>n\<bar> \<le> 2 \<and> 0.4 \<le> 0.8 + n * 0.2 \<and>
           (n < 0 \<longleftrightarrow> 0.8 + n * 0.2 < 0.8) \<and>
           imgData cv ! ((y * w + x) * 4) = to_uint8_clamp (Fin ((0.8 + n * 0.2) * 255)) \<and>
           102 \<le> imgData cv ! ((y * w + x) * 4)"
proof -
  let ?s = "setup_perm st"
  let ?nx = "real x / real w" and ?ny = "real y / real h"
  define n where "n = (noise3 (perm ?s) (?nx * 100) (?ny * 100) 0 +
      noise3 (perm ?s) (?nx * 100 * 2) (?ny * 100 * 2) 0 / 2) / (3 / 2)"
  have i: "init ?s" by (rule init_setup_perm)
  have "0 < w" "0 < h" using assms by simp_all
  then obtain cv s1 where cv: "createRoughnessMap w h SandR st = Inr (cv, s1)"
      "imgData cv = fst (for_xy w h (roughness_pixel w h SandR) (replicate (4 * w * h) 0, ?s))"
    using roughness_call [of w h SandR st] i by blast
  have f: "fst (fbm ?s (?nx * 100) (?ny * 100) 0 2 0.5 1) = Fin n"
    and v: "fst (roughness_val SandR ?nx ?ny ?s) = Fin (0.8 + n * 0.2)"
    unfolding n_def by (rule sand_roughness_val [OF i])+
  have b: "\<bar>n\<bar> \<le> 2" unfolding n_def by (rule sand_sample_bound)
  then have lo: "0.4 \<le> 0.8 + n * 0.2" by simp
  have px: "imgData cv ! ((y * w + x) * 4) = to_uint8_clamp (Fin ((0.8 + n * 0.2) * 255))"
    using roughness_bytes [OF i assms, of 0 SandR] by (simp add: cv(2) v Let_def)
  have "real 102 \<le> (0.8 + n * 0.2) * 255" using lo by simp
  then have "102 \<le> to_uint8_clamp (Fin ((0.8 + n * 0.2) * 255))"
    by (rule to_uint8_clamp_lower) simp
  then have "102 \<le> imgData cv ! ((y * w + x) * 4)" by (simp only: px)
  moreover have "n < 0 \<longleftrightarrow> 0.8 + n * 0.2 < 0.8" by simp
  ultimately show ?thesis using cv(1) f v b lo px by blast
qed

theorem sand_roughness_range_witness:
  "(3::nat) < 8 \<and> (0::nat) < 1 \<and>
   (\<exists>cv s1 n. createRoughnessMap 8 1 SandR (initial_state edge_rand) = Inr (cv, s1) \<and>
      fst (fbm (setup_perm (initial_state edge_rand)) (real 3 / real 8 * 100)
            (real 0 / real 1 * 100) 0 2 0.5 1) = Fin n \<and>
      fst (roughness_val SandR (real 3 / real 8) (real 0 / real 1)
            (setup_perm (initial_state edge_rand))) = Fin (0.8 + n * 0.2) \<and>
      \<bar>n\<bar> \<le> 2 \<and> 0.4 \<le> 0.8 + n * 0.2 \<and>
      (n < 0 \<longleftrightarrow> 0.8 + n * 0.2 < 0.8) \<and>
      imgData cv ! ((0 * 8 + 3) * 4) = to_uint8_clamp (Fin ((0.8 + n * 0.2) * 255)) \<and>
      102 \<le> imgData cv ! ((0 * 8 + 3) * 4))"
proof -
  have h: "(3::nat) < 8" "(0::nat) < 1" by simp_all
  show ?thesis
    using h sand_roughness_range [OF h, of "initial_state edge_rand"] by blast
qed

text \<open>
  The claim as stated fails: with the identity table (the shuffle's result when every
  random number is 255/256), pixel 3 of an 8 by 1 sand map has the sample -1/3, the
  value 11/15 and the byte 187, below the byte 204 of the base 0.8.
\<close>

theorem sand_roughness_below_base:
  "fst (roughness_val SandR (3 / 8) 0 (setup_perm (initial_state edge_rand))) = Fin (11 / 15) \<and>
   (11::real) / 15 < 0.8 \<and>
   (case createRoughnessMap 8 1 SandR (initial_state edge_rand) of
      Inl e \<Rightarrow> False
    | Inr (cv, s) \<Rightarrow> imgData cv ! 12 = 187 \<and> to_uint8_clamp (Fin (0.8 * 255)) = 204)"
proof (intro conjI)
  let ?s = "setup_perm (initial_state edge_rand)"
  have i: "init ?s" by (rule init_setup_perm)
  have z: "noise3 id_table 75 0 0 = 0"
    using noise3_integer [of id_table 75 0 0] by simp
  show v: "fst (roughness_val SandR (3 / 8) 0 ?s) = Fin (11 / 15)"
    using sand_roughness_val(2) [OF i, of "3 / 8" 0]
    by (simp add: setup_perm_edge noise_sample z)
  show "(11::real) / 15 < 0.8" by simp
  obtain cv s1 where cv: "createRoughnessMap 8 1 SandR (initial_state edge_rand) = Inr (cv, s1)"
      "imgData cv = fst (for_xy 8 1 (roughness_pixel 8 1 SandR) (replicate (4 * 8 * 1) 0, ?s))"
    using roughness_call [of 8 1 SandR "initial_state edge_rand"] i by auto
  have "imgData cv ! ((0 * 8 + 3) * 4 + 0) =
      (let b = to_uint8_clamp (jmul (fst (roughness_val SandR (real 3 / real 8) (real 0 / real 1) ?s))
         (Fin 255)) in [b, b, b, 255] ! 0)"
    unfolding cv(2) by (rule roughness_bytes [OF i]) simp_all
  then have "imgData cv ! 12 = 187"
    using v by (simp add: Let_def)
  moreover have "to_uint8_clamp (Fin (0.8 * 255)) = 204" by simp
  ultimately show "case createRoughnessMap 8 1 SandR (initial_state edge_rand) of
      Inl e \<Rightarrow> False
    | Inr (cv, s) \<Rightarrow> imgData cv ! 12 = 187 \<and> to_uint8_clamp (Fin (0.8 * 255)) = 204"
    using cv(1) by simp
qed

section \<open>Albedo pixels\<close>

lemma to_uint8_clamp_le: "to_uint8_clamp v \<le> 255"
proof (cases v)
  case (Fin a)
  show ?thesis
  proof (cases "a < 255")
    case True
    then have "\<lfloor>a\<rfloor> < 255" by (simp add: floor_less_iff)
    then have "nat \<lfloor>a\<rfloor> \<le> 255" "nat (\<lfloor>a\<rfloor> + 1) \<le> 255" by linarith+
    then show ?thesis using Fin by (simp add: Let_def)
  next
    case False
    then show ?thesis using Fin by simp
  qed
qed simp_all

lemma organic_pixel_written:
  assumes "init s" and "t = Granite \<or> t = Bamboo \<or> t = Wood \<or> t = Sand"
  shows "\<exists>r g b. \<forall>d. organic_pixel w h t x y (d, s) =
           (d[(y * w + x) * 4 := to_uint8_clamp r, (y * w + x) * 4 + 1 := to_uint8_clamp g,
              (y * w + x) * 4 + 2 := to_uint8_clamp b, (y * w + x) * 4 + 3 := 255], s)"
  using assms(2)
proof (elim disjE)
  assume "t = Granite"
  then show ?thesis
    by (simp add: organic_pixel_def granite_pixel_def fbm_init [OF assms(1)] split_def Let_def) blast
next
  assume "t = Bamboo"
  then show ?thesis
    by (simp add: organic_pixel_def bamboo_pixel_def fbm_init [OF assms(1)] split_def Let_def) blast
next
  assume "t = Wood"
  then show ?thesis
    by (simp add: organic_pixel_def wood_pixel_def fbm_init [OF assms(1)] split_def Let_def) blast
next
  assume "t = Sand"
  then show ?thesis
    by (simp add: organic_pixel_def sand_pixel_def fbm_init [OF assms(1)] split_def Let_def) blast
qed

lemma quad_nth:
  assumes "c < 4" "i + c < length d"
  shows "d[i := r, i + 1 := g, i + 2 := b, i + 3 := a] ! (i + c) = [r, g, b, a] ! c"
proof -
  have "c = 0 \<or> c = 1 \<or> c = 2 \<or> c = 3" using assms(1) by linarith
  then show ?thesis using assms(2) by (elim disjE) simp_all
qed

lemma quad_other:
  assumes "j div 4 \<noteq> k"
  shows "d[k * 4 := r, k * 4 + 1 := g, k * 4 + 2 := b, k * 4 + 3 := a] ! j = d ! j"
  using block_other [OF assms] by simp

lemma pixel_index_bound:
  assumes "x < w" "y < h" "c < 4"
  shows "(y * w + x) * 4 + c < length (replicate (4 * w * h) (0::nat))"
proof -
  have "y * w + x < y * w + w" using assms(1) by simp
  also have "\<dots> = Suc y * w" by simp
  also have "\<dots> \<le> h * w" using assms(2) by (intro mult_le_mono1) simp
  finally have "(y * w + x) * 4 + c < h * w * 4" using assms(3) by simp
  then show ?thesis by (simp add: mult.commute mult.left_commute)
qed

lemma organic_bytes:
  assumes s: "init s" and t: "t = Granite \<or> t = Bamboo \<or> t = Wood \<or> t = Sand"
    and xy: "x < w" "y < h"
  shows "\<exists>r g b. \<forall>c<4.
      fst (for_xy w h (organic_pixel w h t) (replicate (4 * w * h) 0, s)) ! ((y * w + x) * 4 + c) =
      [to_uint8_clamp r, to_uint8_clamp g, to_uint8_clamp b, 255] ! c"
proof -
  define d0 where "d0 = replicate (4 * w * h) (0::nat)"
  define G where "G x y d = fst (organic_pixel w h t x y (d, s))" for x y d
  define V where "V x y c = G x y d0 ! ((y * w + x) * 4 + c)" for x y c
  have written: "\<exists>r g b. \<forall>d. G x y d =
      d[(y * w + x) * 4 := to_uint8_clamp r, (y * w + x) * 4 + 1 := to_uint8_clamp g,
        (y * w + x) * 4 + 2 := to_uint8_clamp b, (y * w + x) * 4 + 3 := 255]" for x y
  proof -
    obtain r g b where "\<forall>d. organic_pixel w h t x y (d, s) =
           (d[(y * w + x) * 4 := to_uint8_clamp r, (y * w + x) * 4 + 1 := to_uint8_clamp g,
              (y * w + x) * 4 + 2 := to_uint8_clamp b, (y * w + x) * 4 + 3 := 255], s)"
      using organic_pixel_written [OF s t] by blast
    then have "\<forall>d. G x y d =
      d[(y * w + x) * 4 := to_uint8_clamp r, (y * w + x) * 4 + 1 := to_uint8_clamp g,
        (y * w + x) * 4 + 2 := to_uint8_clamp b, (y * w + x) * 4 + 3 := 255]"
      unfolding G_def by simp
    then show ?thesis by (intro exI)
  qed
  have st: "for_xy w h (organic_pixel w h t) (d0, s) = (for_xy w h G d0, s)"
    unfolding G_def by (rule loop_state) (simp add: organic_pixel_state s)
  have blocks: "for_xy w h G d0 ! ((y * w + x) * 4 + c) = V x y c" if c: "c < 4" for c
  proof (rule for_xy_blocks(1) [where n = 4 and g = G and V = V])
    fix x y d
    obtain r g b where e: "\<And>d. G x y d =
        d[(y * w + x) * 4 := to_uint8_clamp r, (y * w + x) * 4 + 1 := to_uint8_clamp g,
          (y * w + x) * 4 + 2 := to_uint8_clamp b, (y * w + x) * 4 + 3 := 255]"
      using written [of x y] by blast
    show "length (G x y d) = length d" unfolding e by simp
    show "G x y d ! j = d ! j" if "j div 4 \<noteq> y * w + x" for j
      unfolding e by (rule quad_other [OF that])
    show "G x y d ! ((y * w + x) * 4 + c) = V x y c"
      if c4: "c < 4" and inside: "(y * w + x) * 4 + c < length d" and x: "x < w" and y: "y < h" for c
    proof -
      have "(y * w + x) * 4 + c < length d0"
        unfolding d0_def by (rule pixel_index_bound [OF x y c4])
      then have "V x y c = [to_uint8_clamp r, to_uint8_clamp g, to_uint8_clamp b, 255] ! c"
        unfolding V_def e by (rule quad_nth [OF c4])
      moreover have "G x y d ! ((y * w + x) * 4 + c) =
          [to_uint8_clamp r, to_uint8_clamp g, to_uint8_clamp b, 255] ! c"
        unfolding e by (rule quad_nth [OF c4 inside])
      ultimately show ?thesis by simp
    qed
  next
    show "x < w" "y < h" "c < 4" by (rule xy c)+
    show "(y * w + x) * 4 + c < length d0"
      unfolding d0_def by (rule pixel_index_bound [OF xy c])
  qed
  obtain r g b where e: "\<And>d. G x y d =
      d[(y * w + x) * 4 := to_uint8_clamp r, (y * w + x) * 4 + 1 := to_uint8_clamp g,
        (y * w + x) * 4 + 2 := to_uint8_clamp b, (y * w + x) * 4 + 3 := 255]"
    using written [of x y] by blast
  have "fst (for_xy w h (organic_pixel w h t) (d0, s)) ! ((y * w + x) * 4 + c) =
      [to_uint8_clamp r, to_uint8_clamp g, to_uint8_clamp b, 255] ! c" if c: "c < 4" for c
  proof -
    have "(y * w + x) * 4 + c < length d0"
      unfolding d0_def by (rule pixel_index_bound [OF xy c])
    then have "V x y c = [to_uint8_clamp r, to_uint8_clamp g, to_uint8_clamp b, 255] ! c"
      unfolding V_def e by (rule quad_nth [OF c])
    then show ?thesis using blocks [OF c] by (simp add: st)
  qed
  then show ?thesis unfolding d0_def by blast
qed


lemma organic_unwritten:
  assumes "t = Roughness \<or> t = Moss"
  shows "for_xy w h (organic_pixel w h t) ds = ds"
proof (rule for_xy_invariant [where P = "\<lambda>r. r = ds"])
  show "ds = ds" ..
next
  fix x y r assume "r = ds"
  then show "organic_pixel w h t x y r = ds"
    using assms by (auto simp: organic_pixel_def)
qed

lemma organic_opaque:
  assumes t: "t = Granite \<or> t = Bamboo \<or> t = Wood \<or> t = Sand" and xy: "x < w" "y < h"
  shows "\<exists>cv s1. createOrganicTexture w h t st = Inr (cv, s1) \<and>
           imgData cv ! ((y * w + x) * 4) \<le> 255 \<and>
           imgData cv ! ((y * w + x) * 4 + 1) \<le> 255 \<and>
           imgData cv ! ((y * w + x) * 4 + 2) \<le> 255 \<and>
           imgData cv ! ((y * w + x) * 4 + 3) = 255"
proof -
  have i: "init (setup_perm st)" by (rule init_setup_perm)
  have "0 < w" "0 < h" using xy by simp_all
  then obtain cv s1 where cv: "createOrganicTexture w h t st = Inr (cv, s1)"
      "imgData cv = fst (for_xy w h (organic_pixel w h t) (replicate (4 * w * h) 0, setup_perm st))"
    using organic_call [of w h t st] i by blast
  obtain r g b where px: "\<And>c. c < 4 \<Longrightarrow> imgData cv ! ((y * w + x) * 4 + c) =
      [to_uint8_clamp r, to_uint8_clamp g, to_uint8_clamp b, 255] ! c"
    using organic_bytes [OF i t xy] unfolding cv(2) by blast
  show ?thesis
    using cv(1) px [of 0] px [of 1] px [of 2] px [of 3] to_uint8_clamp_le by simp
qed

text \<open>
  C4. For the four materials that have a branch in the pixel loop (granite, bamboo, wood,
  sand) the claim holds, as \<open>organic_opaque\<close> shows: the store into the image data
  clamps every colour byte to 0..255 and the alpha byte is 255. The parameter type also
  admits \<open>'moss'\<close> and \<open>'roughness'\<close>, for which no branch writes anything: the image
  data stays as \<open>createImageData\<close> made it, transparent black, with alpha 0.
\<close>

theorem organic_moss_transparent:
  "(case createOrganicTexture 1 1 Moss (initial_state zero_rand) of
      Inl e \<Rightarrow> False
    | Inr (cv, s) \<Rightarrow> imgData cv = [0, 0, 0, 0]) \<and>
   (case createOrganicTexture 1 1 Roughness (initial_state zero_rand) of
      Inl e \<Rightarrow> False
    | Inr (cv, s) \<Rightarrow> imgData cv = [0, 0, 0, 0])"
proof -
  have r4: "replicate (4 * 1 * 1) (0::nat) = [0, 0, 0, 0]"
    by (simp add: numeral_eq_Suc)
  have "case createOrganicTexture 1 1 t (initial_state zero_rand) of
      Inl e \<Rightarrow> False
    | Inr (cv, s) \<Rightarrow> imgData cv = [0, 0, 0, 0]" if t: "t = Roughness \<or> t = Moss" for t
  proof -
    obtain cv s1 where cv: "createOrganicTexture 1 1 t (initial_state zero_rand) = Inr (cv, s1)"
        "imgData cv = fst (for_xy 1 1 (organic_pixel 1 1 t)
           (replicate (4 * 1 * 1) 0, setup_perm (initial_state zero_rand)))"
      using organic_call [of 1 1 t "initial_state zero_rand"] init_setup_perm by auto
    have "imgData cv = [0, 0, 0, 0]"
      unfolding cv(2) organic_unwritten [OF t] r4 by simp
    then show ?thesis using cv(1) by simp
  qed
  from this [of Moss] this [of Roughness] show ?thesis by simp
qed

section \<open>The vectors of the normal map\<close>

lemma unit_tolerance:
  assumes z: "1 / 2 ^ 500 \<le> \<bar>dz\<bar>" "\<bar>dz\<bar> \<le> 2 ^ 500"
    and x: "\<bar>dx\<bar> \<le> 2 ^ 502" and y: "\<bar>dy\<bar> \<le> 2 ^ 502"
  defines "L \<equiv> vec_len dx dy dz"
  shows "\<bar>sqrt ((flush (dx / L))\<^sup>2 + (flush (dy / L))\<^sup>2 + (dz / L)\<^sup>2) - 1\<bar> \<le> 1 / 1000"
proof -
  define u :: real where "u = 1 / 2 ^ 1075"
  define M where "M = L\<^sup>2"
  note fx = flush_square [OF x]
  note fy = flush_square [OF y]
  note vl = vec_len_range [OF z x y, folded L_def]
  have Mlo: "1 / 2 ^ 1000 \<le> M" unfolding M_def by (rule vl(5))
  have Mpos: "0 < M" using Mlo by (smt (verit) divide_pos_pos zero_less_power zero_less_numeral zero_less_one)
  have Meq: "M = flush (dx * dx) + flush (dy * dy) + dz * dz" unfolding M_def by (rule vl(6))
  define T where "T = (dx * dx + dy * dy + dz * dz) / M"
  have sq: "(d / L)\<^sup>2 = d * d / M" for d
    by (simp add: M_def power_divide power2_eq_square)
  have up: "(flush r)\<^sup>2 \<le> r\<^sup>2" for r
    using flush_abs_le [of r] by (simp add: abs_le_square_iff [symmetric])
  have low: "r\<^sup>2 - u\<^sup>2 \<le> (flush r)\<^sup>2" for r
  proof -
    consider (zero) "flush r = 0" "\<bar>r\<bar> \<le> u" | (keep) "flush r = r"
      using flush_cases [of r] unfolding u_def by blast
    then show ?thesis
    proof cases
      case zero
      have "\<bar>r\<bar> \<le> \<bar>u\<bar>" using zero(2) by simp
      then have "r\<^sup>2 \<le> u\<^sup>2" by (simp only: abs_le_square_iff)
      then show ?thesis by (simp add: zero(1))
    next
      case keep
      then show ?thesis by simp
    qed
  qed
  define S where "S = (flush (dx / L))\<^sup>2 + (flush (dy / L))\<^sup>2 + (dz / L)\<^sup>2"
  have Tsum: "T = (dx / L)\<^sup>2 + (dy / L)\<^sup>2 + (dz / L)\<^sup>2"
    by (simp add: T_def sq add_divide_distrib)
  have S_le: "S \<le> T"
    unfolding S_def Tsum using up [of "dx / L"] up [of "dy / L"] by linarith
  have S_ge: "T - 2 * u\<^sup>2 \<le> S"
    unfolding S_def Tsum using low [of "dx / L"] low [of "dy / L"] by linarith
  have num_lo: "M \<le> dx * dx + dy * dy + dz * dz"
    unfolding Meq using fx(4) fy(4) by linarith
  have num_hi: "dx * dx + dy * dy + dz * dz \<le> M + 2 * u"
    unfolding Meq u_def using fx(5) fy(5) by linarith
  have T_ge: "1 \<le> T"
    unfolding T_def using num_lo Mpos by (simp add: le_divide_eq)
  have "T \<le> (M + 2 * u) / M"
    unfolding T_def using num_hi Mpos by (intro divide_right_mono) simp_all
  also have "\<dots> = 1 + 2 * u / M" using Mpos by (simp add: add_divide_distrib)
  also have "\<dots> \<le> 1 + 2 * u / (1 / 2 ^ 1000)"
  proof -
    have "2 * u / M \<le> 2 * u / (1 / 2 ^ 1000)"
      using Mlo by (intro divide_left_mono) (simp_all add: u_def)
    then show ?thesis by simp
  qed
  also have "\<dots> \<le> (1001 / 1000)\<^sup>2" by (simp add: u_def power2_eq_square)
  finally have hi: "S \<le> (1001 / 1000)\<^sup>2" using S_le by linarith
  have "(999 / 1000)\<^sup>2 \<le> 1 - 2 * u\<^sup>2" by (simp add: u_def power2_eq_square)
  then have lo: "(999 / 1000)\<^sup>2 \<le> S" using S_ge T_ge by linarith
  have "999 / 1000 \<le> sqrt S" using lo by (rule real_le_rsqrt)
  moreover have "sqrt S \<le> 1001 / 1000" using hi by (intro real_le_lsqrt) simp_all
  ultimately have "\<bar>sqrt S - 1\<bar> \<le> 1 / 1000" by linarith
  then show ?thesis unfolding S_def .
qed


lemma normal_vec_formula:
  assumes s: "1 / 2 ^ 500 \<le> \<bar>s\<bar>" "\<bar>s\<bar> \<le> 2 ^ 500"
    and r: "f32_read buf (x1_index w x y) = Fin x1" "f32_read buf (x2_index w x y) = Fin x2"
      "f32_read buf (y1_index w h x y) = Fin y1" "f32_read buf (y2_index w h x y) = Fin y2"
    and b: "\<bar>x1\<bar> \<le> 2" "\<bar>x2\<bar> \<le> 2" "\<bar>y1\<bar> \<le> 2" "\<bar>y2\<bar> \<le> 2"
  defines "dx \<equiv> scaled_diff x1 x2 s" and "dy \<equiv> scaled_diff y1 y2 s"
  defines "L \<equiv> vec_len dx dy (1 / s)"
  shows "dx_at buf w s x y = Fin dx" and "dy_at buf w h s x y = Fin dy"
    and "normal_vec buf w h s x y = (Fin (flush (dx / L)), Fin (flush (dy / L)), Fin (1 / s / L))"
    and "\<bar>sqrt ((flush (dx / L))\<^sup>2 + (flush (dy / L))\<^sup>2 + (1 / s / L)\<^sup>2) - 1\<bar> \<le> 1 / 1000"
    and "0 < L"
proof -
  note sx = scaled_diff_fin [OF s(2) b(1,2), folded dx_def]
  note sy = scaled_diff_fin [OF s(2) b(3,4), folded dy_def]
  note dz = dz_of_in_range [OF s]
  note vl = vec_len_range [OF dz(2,3) sx(2) sy(2), folded L_def]
  show dxv: "dx_at buf w s x y = Fin dx" by (simp add: dx_at_def r sx(1))
  show dyv: "dy_at buf w h s x y = Fin dy" by (simp add: dy_at_def r sy(1))
  have Llo: "1 / 2 ^ 500 \<le> L" by (rule vl(2))
  then show Lpos: "0 < L"
    by (smt (verit) divide_pos_pos zero_less_power zero_less_numeral zero_less_one)
  have quot: "ddiv (Fin d) (Fin L) = Fin (flush (d / L))" if d: "\<bar>d\<bar> \<le> 2 ^ 502" for d
  proof -
    have "\<bar>d\<bar> / L \<le> 2 ^ 502 / (1 / 2 ^ 500)"
      using d Llo by (intro frac_le) simp_all
    also have "\<dots> \<le> 2 ^ 1023" by simp
    finally have "\<bar>d / L\<bar> \<le> 2 ^ 1023" using Lpos by simp
    then have "to_double (Fin (d / L)) = Fin (flush (d / L))" by (rule to_double_in)
    then show ?thesis using Lpos by (simp add: d_ops_fin del: to_double.simps)
  qed
  have "1 / 2 ^ 1003 = 1 / 2 ^ 500 / (2::real) ^ 503" by simp
  also have "\<dots> \<le> \<bar>1 / s\<bar> / L"
    using dz(2) vl(3) Lpos by (intro frac_le) simp_all
  also have "\<dots> = \<bar>1 / s / L\<bar>" using Lpos by (simp only: abs_divide abs_of_pos)
  finally have "1 / 2 ^ 1003 \<le> \<bar>1 / s / L\<bar>" .
  then have "1 / 2 ^ 1075 < \<bar>1 / s / L\<bar>" using inv_pow_less [of 1003 1075] by linarith
  then have keep: "flush (1 / s / L) = 1 / s / L" by (rule flush_keep)
  have "\<bar>1 / s\<bar> \<le> 2 ^ 502" using dz(3) pow_mono [of 500 502] by linarith
  then have qz: "ddiv (Fin (1 / s)) (Fin L) = Fin (1 / s / L)"
    using quot [of "1 / s"] keep by simp
  show "normal_vec buf w h s x y = (Fin (flush (dx / L)), Fin (flush (dy / L)), Fin (1 / s / L))"
    unfolding normal_vec_def Let_def dxv dyv dz(1) vl(1) quot [OF sx(2)] quot [OF sy(2)] qz ..
  show "\<bar>sqrt ((flush (dx / L))\<^sup>2 + (flush (dy / L))\<^sup>2 + (1 / s / L)\<^sup>2) - 1\<bar> \<le> 1 / 1000"
    unfolding L_def by (rule unit_tolerance [OF dz(2,3) sx(2) sy(2)])
qed

lemma fbm_spec_bound:
  assumes "0 < p" "0 < n"
  shows "\<exists>a. fbm_spec P x y z n p s = Fin a \<and> \<bar>a\<bar> \<le> 2"
proof -
  let ?f = "\<lambda>i. noise3 P (x * (s * 2 ^ i)) (y * (s * 2 ^ i)) (z * (s * 2 ^ i))"
  let ?D = "\<Sum>i<n. p ^ i"
  have D: "0 < ?D" using assms by (intro sum_pos) auto
  have "\<bar>\<Sum>i<n. ?f i * p ^ i\<bar> \<le> (\<Sum>i<n. \<bar>?f i * p ^ i\<bar>)" by (rule sum_abs)
  also have "\<dots> \<le> (\<Sum>i<n. 2 * p ^ i)"
  proof (rule sum_mono)
    fix i
    have "\<bar>?f i * p ^ i\<bar> = \<bar>?f i\<bar> * p ^ i" using assms(1) by (simp add: abs_mult)
    also have "\<dots> \<le> 2 * p ^ i"
      using noise3_bound [of P] assms(1) by (intro mult_right_mono) simp_all
    finally show "\<bar>?f i * p ^ i\<bar> \<le> 2 * p ^ i" .
  qed
  also have "\<dots> = 2 * ?D" by (simp add: sum_distrib_left)
  finally have "\<bar>(\<Sum>i<n. ?f i * p ^ i) / ?D\<bar> \<le> 2"
    using D by (simp add: divide_le_eq)
  then show ?thesis using fbm_spec_finite [OF assms, of P x y z s] by simp
qed

lemma height_pixel_bounded:
  assumes "init s"
  shows "\<exists>v. \<bar>v\<bar> \<le> 2 \<and> height_pixel w h t x y (d, s) = (d[y * w + x := Fin v], s)"
proof -
  define nx where "nx = real x / real w"
  define ny where "ny = real y / real h"
  show ?thesis
  proof (cases t)
    case GenericN
    obtain v where v: "\<bar>v\<bar> \<le> 2" "fbm_spec (perm s) (nx * 10) (ny * 10) 99 4 (1 / 2) 1 = Fin v"
      using fbm_spec_bound [of "1 / 2" 4 "perm s" "nx * 10" "ny * 10" 99 1] by auto
    have "height_pixel w h t x y (d, s) = (d[y * w + x := Fin v], s)"
      using v(2) by (simp add: GenericN height_pixel_def fbm_init [OF assms] nx_def ny_def)
    then show ?thesis using v(1) by blast
  next
    case BambooN
    obtain v where v: "\<bar>v\<bar> \<le> 2" "fbm_spec (perm s) (nx * 150) (ny * 5) 0 3 (1 / 2) 1 = Fin v"
      using fbm_spec_bound [of "1 / 2" 3 "perm s" "nx * 150" "ny * 5" 0 1] by auto
    have "height_pixel w h t x y (d, s) = (d[y * w + x := Fin v], s)"
      using v(2) by (simp add: BambooN height_pixel_def fbm_init [OF assms] nx_def ny_def)
    then show ?thesis using v(1) by blast
  next
    case StoneN
    obtain v where v: "\<bar>v\<bar> \<le> 2" "fbm_spec (perm s) (nx * 20) (ny * 20) 99 5 (1 / 2) 1 = Fin v"
      using fbm_spec_bound [of "1 / 2" 5 "perm s" "nx * 20" "ny * 20" 99 1] by auto
    have "height_pixel w h t x y (d, s) = (d[y * w + x := Fin v], s)"
      using v(2) by (simp add: StoneN height_pixel_def fbm_init [OF assms] nx_def ny_def)
    then show ?thesis using v(1) by blast
  qed
qed

lemma height_map_bounded:
  assumes "init s"
  shows "length (fst (height_map w h t s)) = w * h"
    and "\<forall>v\<in>set (fst (height_map w h t s)). \<exists>a. v = Fin a \<and> \<bar>a\<bar> \<le> 2"
proof -
  let ?P = "\<lambda>ds. snd ds = s \<and> length (fst ds) = w * h \<and>
      (\<forall>v\<in>set (fst ds). \<exists>a. v = Fin a \<and> \<bar>a\<bar> \<le> 2)"
  have "?P (for_xy w h (height_pixel w h t) (replicate (w * h) (Fin 0), s))"
  proof (rule for_xy_invariant [where P = ?P])
    show "?P (replicate (w * h) (Fin 0), s)" by simp
  next
    fix x y ds assume "?P ds"
    then obtain d where ds: "ds = (d, s)" and d: "length d = w * h"
        "\<forall>v\<in>set d. \<exists>a. v = Fin a \<and> \<bar>a\<bar> \<le> 2"
      by (cases ds) auto
    obtain v where v: "\<bar>v\<bar> \<le> 2" "height_pixel w h t x y (d, s) = (d[y * w + x := Fin v], s)"
      using height_pixel_bounded [OF assms] by blast
    have "\<forall>u\<in>set (d[y * w + x := Fin v]). \<exists>a. u = Fin a \<and> \<bar>a\<bar> \<le> 2"
      using d(2) v(1) set_update_subset_insert [of d "y * w + x" "Fin v"] by auto
    then show "?P (height_pixel w h t x y ds)"
      using d(1) by (simp add: ds v(2))
  qed
  then show "length (fst (height_map w h t s)) = w * h"
    and "\<forall>v\<in>set (fst (height_map w h t s)). \<exists>a. v = Fin a \<and> \<bar>a\<bar> \<le> 2"
    by (simp_all add: height_map_def)
qed

lemma f32_read_bounded:
  assumes "\<forall>v\<in>set buf. \<exists>a. v = Fin a \<and> \<bar>a\<bar> \<le> 2" "0 \<le> k \<and> nat k < length buf"
  shows "\<exists>a. f32_read buf k = Fin a \<and> \<bar>a\<bar> \<le> 2"
  using assms by (simp add: f32_read_def)

lemma normal_pixel_bytes:
  assumes "x < w" "y < h" "c < 4"
  shows "for_xy w h (normal_pixel buf w h k) (replicate (4 * w * h) 0) ! ((y * w + x) * 4 + c) =
     (case normal_vec buf w h k x y of (vx, vy, vz) \<Rightarrow>
        [to_uint8_clamp (dmul (dadd (dmul vx (Fin 0.5)) (Fin 0.5)) (Fin 255)),
         to_uint8_clamp (dmul (dadd (dmul vy (Fin 0.5)) (Fin 0.5)) (Fin 255)),
         to_uint8_clamp (dmul vz (Fin 255)), 255] ! c)"
proof (rule for_xy_blocks(1) [where n = 4 and g = "normal_pixel buf w h k"
      and V = "\<lambda>x y c. (case normal_vec buf w h k x y of (vx, vy, vz) \<Rightarrow>
        [to_uint8_clamp (dmul (dadd (dmul vx (Fin 0.5)) (Fin 0.5)) (Fin 255)),
         to_uint8_clamp (dmul (dadd (dmul vy (Fin 0.5)) (Fin 0.5)) (Fin 255)),
         to_uint8_clamp (dmul vz (Fin 255)), 255] ! c)"])
  show "length (normal_pixel buf w h k x y d) = length d" for x y d
    by (simp add: normal_pixel_def split_def Let_def)
  show "normal_pixel buf w h k x y d ! j = d ! j" if "j div 4 \<noteq> y * w + x" for x y d j
    using block_other [OF that] by (simp add: normal_pixel_def split_def Let_def)
  show "normal_pixel buf w h k x y d ! ((y * w + x) * 4 + c) =
      (case normal_vec buf w h k x y of (vx, vy, vz) \<Rightarrow>
        [to_uint8_clamp (dmul (dadd (dmul vx (Fin 0.5)) (Fin 0.5)) (Fin 255)),
         to_uint8_clamp (dmul (dadd (dmul vy (Fin 0.5)) (Fin 0.5)) (Fin 255)),
         to_uint8_clamp (dmul vz (Fin 255)), 255] ! c)"
    if c4: "c < 4" and inside: "(y * w + x) * 4 + c < length d" for x y d c
  proof -
    have "c = 0 \<or> c = 1 \<or> c = 2 \<or> c = 3" using c4 by linarith
    then show ?thesis
      using inside by (elim disjE) (simp_all add: normal_pixel_def split_def Let_def)
  qed
  show "x < w" "y < h" "c < 4" by (rule assms)+
  have "y * w + x < y * w + w" using assms(1) by simp
  also have "\<dots> = Suc y * w" by simp
  also have "\<dots> \<le> h * w" using assms(2) by (intro mult_le_mono1) simp
  finally have "(y * w + x) * 4 + c < h * w * 4" using assms(3) by simp
  then show "(y * w + x) * 4 + c < length (replicate (4 * w * h) (0::nat))"
    by (simp add: mult.commute mult.left_commute)
qed

lemma unit_component_bound:
  assumes "\<bar>sqrt (a\<^sup>2 + b\<^sup>2 + c\<^sup>2) - 1\<bar> \<le> 1 / 1000"
  shows "\<bar>a\<bar> \<le> 2" "\<bar>b\<bar> \<le> 2" "\<bar>c\<bar> \<le> 2"
proof -
  have le: "\<bar>d\<bar> \<le> 2" if "d\<^sup>2 \<le> a\<^sup>2 + b\<^sup>2 + c\<^sup>2" for d
  proof -
    have "\<bar>d\<bar> = sqrt (d\<^sup>2)" by simp
    also have "\<dots> \<le> sqrt (a\<^sup>2 + b\<^sup>2 + c\<^sup>2)" using that by (rule real_sqrt_le_mono)
    finally show ?thesis using assms by linarith
  qed
  show "\<bar>a\<bar> \<le> 2" "\<bar>b\<bar> \<le> 2" "\<bar>c\<bar> \<le> 2"
    by (rule le, simp)+
qed

lemma small_to_double:
  assumes "\<bar>r\<bar> \<le> 1000"
  shows "to_double (Fin r) = Fin (flush r)"
proof -
  have "(1000::real) \<le> 2 ^ 10" by simp
  also have "\<dots> \<le> 2 ^ 1023" by (rule pow_mono) simp
  finally have "\<bar>r\<bar> \<le> 2 ^ 1023" using assms by linarith
  then show ?thesis by (rule to_double_in)
qed

lemma stored_finite:
  assumes "\<bar>a\<bar> \<le> 2"
  shows "dmul (dadd (dmul (Fin a) (Fin 0.5)) (Fin 0.5)) (Fin 255) =
           Fin (flush (flush (flush (a * 0.5) + 0.5) * 255))"
    and "dmul (Fin a) (Fin 255) = Fin (flush (a * 255))"
proof -
  have 1: "\<bar>a * 0.5\<bar> \<le> 1" using assms by simp
  then have m: "dmul (Fin a) (Fin 0.5) = Fin (flush (a * 0.5))"
    unfolding d_ops_fin by (intro small_to_double) linarith
  have 2: "\<bar>flush (a * 0.5)\<bar> \<le> 1" using flush_abs_le [of "a * 0.5"] 1 by linarith
  then have "\<bar>flush (a * 0.5) + 0.5\<bar> \<le> 2" by linarith
  then have p: "dadd (Fin (flush (a * 0.5))) (Fin 0.5) = Fin (flush (flush (a * 0.5) + 0.5))"
    unfolding d_ops_fin by (intro small_to_double) linarith
  have 3: "\<bar>flush (flush (a * 0.5) + 0.5)\<bar> \<le> 2"
    using flush_abs_le [of "flush (a * 0.5) + 0.5"] \<open>\<bar>flush (a * 0.5) + 0.5\<bar> \<le> 2\<close> by linarith
  have "\<bar>flush (flush (a * 0.5) + 0.5) * 255\<bar> = \<bar>flush (flush (a * 0.5) + 0.5)\<bar> * 255"
    by (simp add: abs_mult)
  then have "\<bar>flush (flush (a * 0.5) + 0.5) * 255\<bar> \<le> 1000" using 3 by linarith
  then show "dmul (dadd (dmul (Fin a) (Fin 0.5)) (Fin 0.5)) (Fin 255) =
           Fin (flush (flush (flush (a * 0.5) + 0.5) * 255))"
    unfolding m p unfolding d_ops_fin by (rule small_to_double)
  have "\<bar>a * 255\<bar> = \<bar>a\<bar> * 255" by (simp add: abs_mult)
  then have "\<bar>a * 255\<bar> \<le> 1000" using assms by linarith
  then show "dmul (Fin a) (Fin 255) = Fin (flush (a * 255))"
    unfolding d_ops_fin by (rule small_to_double)
qed

lemma dz_of_finite_iff: "is_finite (dz_of s) \<longleftrightarrow> s \<noteq> 0 \<and> \<bar>1 / s\<bar> < overflow_bound"
  by (cases "s = 0") (simp_all add: dz_of_def ddiv_def not_le)

lemma normal_map_pixel:
  assumes s: "1 / 2 ^ 500 \<le> \<bar>s\<bar>" "\<bar>s\<bar> \<le> 2 ^ 500" and xy: "x < w" "y < h"
  shows "\<exists>cv s1 B x1 x2 y1 y2 dx dy L a b c.
      createNormalMap w h s nt st = Inr (cv, s1) \<and>
      B = fst (height_map w h nt (setup_perm st)) \<and>
      B ! nat (x1_index w x y) = Fin x1 \<and> B ! nat (x2_index w x y) = Fin x2 \<and>
      B ! nat (y1_index w h x y) = Fin y1 \<and> B ! nat (y2_index w h x y) = Fin y2 \<and>
      dx = scaled_diff x1 x2 s \<and> dy = scaled_diff y1 y2 s \<and>
      dx_at B w s x y = Fin dx \<and> dy_at B w h s x y = Fin dy \<and> dz_of s = Fin (1 / s) \<and>
      L = vec_len dx dy (1 / s) \<and> 0 < L \<and>
      a = flush (dx / L) \<and> b = flush (dy / L) \<and> c = 1 / s / L \<and>
      normal_vec B w h s x y = (Fin a, Fin b, Fin c) \<and>
      \<bar>sqrt (a\<^sup>2 + b\<^sup>2 + c\<^sup>2) - 1\<bar> \<le> 1 / 1000 \<and>
      imgData cv ! ((y * w + x) * 4) =
        to_uint8_clamp (dmul (dadd (dmul (Fin a) (Fin 0.5)) (Fin 0.5)) (Fin 255)) \<and>
      imgData cv ! ((y * w + x) * 4 + 1) =
        to_uint8_clamp (dmul (dadd (dmul (Fin b) (Fin 0.5)) (Fin 0.5)) (Fin 255)) \<and>
      imgData cv ! ((y * w + x) * 4 + 2) = to_uint8_clamp (dmul (Fin c) (Fin 255)) \<and>
      imgData cv ! ((y * w + x) * 4 + 3) = 255"
proof -
  define B where "B = fst (height_map w h nt (setup_perm st))"
  have wh: "0 < w" "0 < h" using xy by simp_all
  obtain cv s1 where cv: "createNormalMap w h s nt st = Inr (cv, s1)"
      "imgData cv = for_xy w h (normal_pixel B w h s) (replicate (4 * w * h) 0)"
    using normal_map_image [OF wh, of s nt st] unfolding B_def by blast
  note hb = height_map_bounded [OF init_setup_perm, of w h nt st, folded B_def]
  note ir = index_in_range [OF xy, folded hb(1)]
  obtain x1 where x1: "f32_read B (x1_index w x y) = Fin x1" "\<bar>x1\<bar> \<le> 2"
    using f32_read_bounded [OF hb(2) ir(1)] by blast
  obtain x2 where x2: "f32_read B (x2_index w x y) = Fin x2" "\<bar>x2\<bar> \<le> 2"
    using f32_read_bounded [OF hb(2) ir(2)] by blast
  obtain y1 where y1: "f32_read B (y1_index w h x y) = Fin y1" "\<bar>y1\<bar> \<le> 2"
    using f32_read_bounded [OF hb(2) ir(3)] by blast
  obtain y2 where y2: "f32_read B (y2_index w h x y) = Fin y2" "\<bar>y2\<bar> \<le> 2"
    using f32_read_bounded [OF hb(2) ir(4)] by blast
  define dx where "dx = scaled_diff x1 x2 s"
  define dy where "dy = scaled_diff y1 y2 s"
  define L where "L = vec_len dx dy (1 / s)"
  define a where "a = flush (dx / L)"
  define b where "b = flush (dy / L)"
  define c where "c = 1 / s / L"
  note nf = normal_vec_formula [OF s x1(1) x2(1) y1(1) y2(1) x1(2) x2(2) y1(2) y2(2),
      folded dx_def dy_def, folded L_def, folded a_def b_def c_def]
  note rd = x1(1) [unfolded f32_read_in [OF ir(1)]] x2(1) [unfolded f32_read_in [OF ir(2)]]
    y1(1) [unfolded f32_read_in [OF ir(3)]] y2(1) [unfolded f32_read_in [OF ir(4)]]
  have px: "imgData cv ! ((y * w + x) * 4 + k) =
      [to_uint8_clamp (dmul (dadd (dmul (Fin a) (Fin 0.5)) (Fin 0.5)) (Fin 255)),
       to_uint8_clamp (dmul (dadd (dmul (Fin b) (Fin 0.5)) (Fin 0.5)) (Fin 255)),
       to_uint8_clamp (dmul (Fin c) (Fin 255)), 255] ! k" if "k < 4" for k
    unfolding cv(2) normal_pixel_bytes [OF xy that] nf(3) by simp
  have p0: "imgData cv ! ((y * w + x) * 4) =
        to_uint8_clamp (dmul (dadd (dmul (Fin a) (Fin 0.5)) (Fin 0.5)) (Fin 255))"
    using px [of 0] by simp
  have p1: "imgData cv ! ((y * w + x) * 4 + 1) =
        to_uint8_clamp (dmul (dadd (dmul (Fin b) (Fin 0.5)) (Fin 0.5)) (Fin 255))"
    using px [of 1] by simp
  have p2: "imgData cv ! ((y * w + x) * 4 + 2) = to_uint8_clamp (dmul (Fin c) (Fin 255))"
    using px [of 2] by simp
  have p3: "imgData cv ! ((y * w + x) * 4 + 3) = 255"
    using px [of 3] by simp
  have big: "createNormalMap w h s nt st = Inr (cv, s1) \<and>
      B = fst (height_map w h nt (setup_perm st)) \<and>
      B ! nat (x1_index w x y) = Fin x1 \<and> B ! nat (x2_index w x y) = Fin x2 \<and>
      B ! nat (y1_index w h x y) = Fin y1 \<and> B ! nat (y2_index w h x y) = Fin y2 \<and>
      dx = scaled_diff x1 x2 s \<and> dy = scaled_diff y1 y2 s \<and>
      dx_at B w s x y = Fin dx \<and> dy_at B w h s x y = Fin dy \<and> dz_of s = Fin (1 / s) \<and>
      L = vec_len dx dy (1 / s) \<and> 0 < L \<and>
      a = flush (dx / L) \<and> b = flush (dy / L) \<and> c = 1 / s / L \<and>
      normal_vec B w h s x y = (Fin a, Fin b, Fin c) \<and>
      \<bar>sqrt (a\<^sup>2 + b\<^sup>2 + c\<^sup>2) - 1\<bar> \<le> 1 / 1000 \<and>
      imgData cv ! ((y * w + x) * 4) =
        to_uint8_clamp (dmul (dadd (dmul (Fin a) (Fin 0.5)) (Fin 0.5)) (Fin 255)) \<and>
      imgData cv ! ((y * w + x) * 4 + 1) =
        to_uint8_clamp (dmul (dadd (dmul (Fin b) (Fin 0.5)) (Fin 0.5)) (Fin 255)) \<and>
      imgData cv ! ((y * w + x) * 4 + 2) = to_uint8_clamp (dmul (Fin c) (Fin 255)) \<and>
      imgData cv ! ((y * w + x) * 4 + 3) = 255"
    apply (intro conjI)
    apply (rule cv(1))
    apply (rule B_def)
    apply (rule rd(1))
    apply (rule rd(2))
    apply (rule rd(3))
    apply (rule rd(4))
    apply (rule dx_def)
    apply (rule dy_def)
    apply (rule nf(1))
    apply (rule nf(2))
    apply (rule dz_of_in_range(1) [OF s])
    apply (rule L_def)
    apply (rule nf(5))
    apply (rule a_def)
    apply (rule b_def)
    apply (rule c_def)
    apply (rule nf(3))
    apply (rule nf(4))
    apply (rule p0)
    apply (rule p1)
    apply (rule p2)
    apply (rule p3)
    done
  show ?thesis
    apply (rule exI [of _ cv])
    apply (rule exI [of _ s1])
    apply (rule exI [of _ B])
    apply (rule exI [of _ x1])
    apply (rule exI [of _ x2])
    apply (rule exI [of _ y1])
    apply (rule exI [of _ y2])
    apply (rule exI [of _ dx])
    apply (rule exI [of _ dy])
    apply (rule exI [of _ L])
    apply (rule exI [of _ a])
    apply (rule exI [of _ b])
    apply (rule exI [of _ c])
    apply (rule big)
    done
qed

lemma noise_sample_a: "noise3 id_table (5 / 2) 0 99 = - 1 / 2"
  by (simp add: noise3_def Let_def cell_def id_table_at plus_ix_def fade_def lerp_def grad_def)

lemma noise_sample_b: "noise3 id_table (15 / 2) 0 99 = 0"
  by (simp add: noise3_def Let_def cell_def id_table_at plus_ix_def fade_def lerp_def grad_def)

lemma noise3_numeral:
  "noise3 p (numeral a) 0 (numeral c) = 0" "noise3 p 0 0 (numeral c) = 0"
  using noise3_integer [of p "numeral a" 0 "numeral c"] noise3_integer [of p 0 0 "numeral c"]
  by simp_all

lemma height_samples:
  "fbm_spec id_table 0 0 99 4 (1 / 2) 1 = Fin 0"
  "fbm_spec id_table (5 / 2) 0 99 4 (1 / 2) 1 = Fin (- 4 / 15)"
  "fbm_spec id_table 5 0 99 4 (1 / 2) 1 = Fin 0"
  "fbm_spec id_table (15 / 2) 0 99 4 (1 / 2) 1 = Fin 0"
  by (simp_all add: fbm_spec_def eval_nat_numeral noise3_numeral noise_sample_a noise_sample_b)

lemma height_map_sample:
  "fst (height_map 4 1 GenericN (setup_perm (initial_state edge_rand))) =
     [Fin 0, Fin (- 4 / 15), Fin 0, Fin 0]"
proof -
  define s where "s = setup_perm (initial_state edge_rand)"
  have i: "init s" unfolding s_def by (rule init_setup_perm)
  have p: "perm s = id_table" unfolding s_def by (rule setup_perm_edge)
  have up: "[0..<4] = [0, 1, 2, 3]" "[0..<1] = [0]" by (simp_all add: upt_rec)
  have r: "replicate (4 * 1) (Fin 0) = [Fin 0, Fin 0, Fin 0, Fin 0]"
    by (simp add: numeral_eq_Suc)
  show ?thesis
    unfolding s_def [symmetric] height_map_def for_xy_def up r
    using height_samples
    by (simp add: height_pixel_def fbm_init [OF i] p)
qed

lemmas d_ops = dadd_def dsub_def dmul_def ddiv_def dsqrt_def jsub_def overflow_bound_def flush_def

lemmas index_defs = x1_index_def x2_index_def y1_index_def y2_index_def js_rem_def

lemma flat_normal_vec: "normal_vec [Fin 0] 1 1 0 0 0 = (Fin 0, Fin 0, NaN)"
  by (simp add: normal_vec_def dx_at_def dy_at_def dz_of_def index_defs f32_read_def d_ops Let_def)

lemma flat_normal_vec_huge: "normal_vec [Fin 0] 1 1 (2 ^ 600) 0 0 = (NaN, NaN, PInf)"
  by (simp add: normal_vec_def dx_at_def dy_at_def dz_of_def index_defs f32_read_def d_ops Let_def)

lemma flat_normal_vec_tiny: "normal_vec [Fin 0] 1 1 (1 / 2 ^ 600) 0 0 = (Fin 0, Fin 0, Fin 0)"
  by (simp add: normal_vec_def dx_at_def dy_at_def dz_of_def index_defs f32_read_def d_ops Let_def)

lemma flat_image:
  "\<exists>cv s1. createNormalMap 1 1 k GenericN (initial_state zero_rand) = Inr (cv, s1) \<and>
     imgData cv = normal_pixel [Fin 0] 1 1 k 0 0 [0, 0, 0, 0]"
proof -
  obtain cv s1 where cv: "createNormalMap 1 1 k GenericN (initial_state zero_rand) = Inr (cv, s1)"
      "imgData cv = for_xy 1 1
         (normal_pixel (fst (height_map 1 1 GenericN (setup_perm (initial_state zero_rand)))) 1 1 k)
         (replicate (4 * 1 * 1) 0)"
    using normal_map_image [of 1 1 k GenericN "initial_state zero_rand"] by auto
  have B: "fst (height_map 1 1 GenericN (setup_perm (initial_state zero_rand))) = [Fin 0]"
    by (rule flat_height_map) (rule init_setup_perm)
  have r4: "replicate (4 * 1 * 1) (0::nat) = [0, 0, 0, 0]"
    by (simp add: numeral_eq_Suc)
  have "imgData cv = normal_pixel [Fin 0] 1 1 k 0 0 [0, 0, 0, 0]"
    unfolding cv(2) B r4 by (simp add: for_xy_def)
  then show ?thesis using cv(1) by blast
qed

lemma sqrt_sample: "sqrt (169 / 225) = 13 / 15"
  by (rule real_sqrt_unique) (simp_all add: power2_eq_square)

text \<open>
  C5 (as amended). For a strength between \<open>2^-500\<close> and \<open>2^500\<close> and every pixel of
  a normal map, the deriver reads the four wrapped neighbours of the pixel from the height
  buffer, forms \<open>dx\<close> and \<open>dy\<close> as their scaled differences and \<open>dz = 1 / strength\<close>,
  and divides the three by the Euclidean length \<open>len\<close> of \<open>(dx, dy, dz)\<close>, which is
  positive. The vector \<open>(dx / len, dy / len, dz / len)\<close> so computed has three finite
  components and its length is within \<open>1e-3\<close> of 1. The four bytes of the pixel in the
  image of \<open>createNormalMap\<close> are the remapped components of this vector,
  \<open>(v * 0.5 + 0.5) * 255\<close> for the first two and \<open>v * 255\<close> for the third, and
  alpha 255.
\<close>

theorem normal_unit_length:
  assumes "1 / 2 ^ 500 \<le> strength" and "strength \<le> 2 ^ 500" and "x < w" and "y < h"
  shows "\<exists>cv s1 B x1 x2 y1 y2 dx dy L a b c.
      createNormalMap w h strength nt st = Inr (cv, s1) \<and>
      B = fst (height_map w h nt (setup_perm st)) \<and>
      B ! nat (x1_index w x y) = Fin x1 \<and> B ! nat (x2_index w x y) = Fin x2 \<and>
      B ! nat (y1_index w h x y) = Fin y1 \<and> B ! nat (y2_index w h x y) = Fin y2 \<and>
      dx = scaled_diff x1 x2 strength \<and> dy = scaled_diff y1 y2 strength \<and>
      dx_at B w strength x y = Fin dx \<and> dy_at B w h strength x y = Fin dy \<and>
      dz_of strength = Fin (1 / strength) \<and>
      L = vec_len dx dy (1 / strength) \<and> 0 < L \<and>
      a = flush (dx / L) \<and> b = flush (dy / L) \<and> c = 1 / strength / L \<and>
      normal_vec B w h strength x y = (Fin a, Fin b, Fin c) \<and>
      \<bar>sqrt (a\<^sup>2 + b\<^sup>2 + c\<^sup>2) - 1\<bar> \<le> 1 / 1000 \<and>
      imgData cv ! ((y * w + x) * 4) =
        to_uint8_clamp (dmul (dadd (dmul (Fin a) (Fin 0.5)) (Fin 0.5)) (Fin 255)) \<and>
      imgData cv ! ((y * w + x) * 4 + 1) =
        to_uint8_clamp (dmul (dadd (dmul (Fin b) (Fin 0.5)) (Fin 0.5)) (Fin 255)) \<and>
      imgData cv ! ((y * w + x) * 4 + 2) = to_uint8_clamp (dmul (Fin c) (Fin 255)) \<and>
      imgData cv ! ((y * w + x) * 4 + 3) = 255"
proof -
  have "(0::real) < 1 / 2 ^ 500" by simp
  then have "0 < strength" using assms(1) by linarith
  then have "1 / 2 ^ 500 \<le> \<bar>strength\<bar>" "\<bar>strength\<bar> \<le> 2 ^ 500"
    using assms(1,2) by simp_all
  then show ?thesis using assms(3,4) by (rule normal_map_pixel)
qed

theorem normal_unit_length_witness:
  "(1::real) / 2 ^ 500 \<le> 3 \<and> (3::real) \<le> 2 ^ 500 \<and> (0::nat) < 4 \<and> (0::nat) < 1 \<and>
   (\<exists>cv s1. createNormalMap 4 1 3 GenericN (initial_state edge_rand) = Inr (cv, s1) \<and>
      fst (height_map 4 1 GenericN (setup_perm (initial_state edge_rand))) =
        [Fin 0, Fin (- 4 / 15), Fin 0, Fin 0] \<and>
      dx_at [Fin 0, Fin (- 4 / 15), Fin 0, Fin 0] 4 3 0 0 = Fin (4 / 5) \<and>
      dy_at [Fin 0, Fin (- 4 / 15), Fin 0, Fin 0] 4 1 3 0 0 = Fin 0 \<and>
      dz_of 3 = Fin (1 / 3) \<and>
      normal_vec [Fin 0, Fin (- 4 / 15), Fin 0, Fin 0] 4 1 3 0 0 =
        (Fin (12 / 13), Fin 0, Fin (5 / 13)) \<and>
      \<bar>sqrt ((12 / 13)\<^sup>2 + 0\<^sup>2 + (5 / 13)\<^sup>2) - 1\<bar> \<le> (1::real) / 1000 \<and>
      imgData cv ! 0 = 245 \<and> imgData cv ! 1 = 128 \<and> imgData cv ! 2 = 98 \<and>
      imgData cv ! 3 = 255)"
proof -
  have h: "(1::real) / 2 ^ 500 \<le> 3" "(3::real) \<le> 2 ^ 500" "(0::nat) < 4" "(0::nat) < 1"
    by simp_all
  obtain cv s1 B x1 x2 y1 y2 dx dy L a b c where r:
      "createNormalMap 4 1 3 GenericN (initial_state edge_rand) = Inr (cv, s1)"
      "B = fst (height_map 4 1 GenericN (setup_perm (initial_state edge_rand)))"
      "B ! nat (x1_index 4 0 0) = Fin x1" "B ! nat (x2_index 4 0 0) = Fin x2"
      "B ! nat (y1_index 4 1 0 0) = Fin y1" "B ! nat (y2_index 4 1 0 0) = Fin y2"
      "dx = scaled_diff x1 x2 3" "dy = scaled_diff y1 y2 3"
      "dx_at B 4 3 0 0 = Fin dx" "dy_at B 4 1 3 0 0 = Fin dy" "dz_of 3 = Fin (1 / 3)"
      "L = vec_len dx dy (1 / 3)"
      "a = flush (dx / L)" "b = flush (dy / L)" "c = 1 / 3 / L"
      "normal_vec B 4 1 3 0 0 = (Fin a, Fin b, Fin c)"
      "\<bar>sqrt (a\<^sup>2 + b\<^sup>2 + c\<^sup>2) - 1\<bar> \<le> 1 / 1000"
      "imgData cv ! ((0 * 4 + 0) * 4) =
        to_uint8_clamp (dmul (dadd (dmul (Fin a) (Fin 0.5)) (Fin 0.5)) (Fin 255))"
      "imgData cv ! ((0 * 4 + 0) * 4 + 1) =
        to_uint8_clamp (dmul (dadd (dmul (Fin b) (Fin 0.5)) (Fin 0.5)) (Fin 255))"
      "imgData cv ! ((0 * 4 + 0) * 4 + 2) = to_uint8_clamp (dmul (Fin c) (Fin 255))"
      "imgData cv ! ((0 * 4 + 0) * 4 + 3) = 255"
    using normal_unit_length [OF h, of GenericN "initial_state edge_rand"] by blast
  have B: "B = [Fin 0, Fin (- 4 / 15), Fin 0, Fin 0]"
    unfolding r(2) by (rule height_map_sample)
  have x1: "x1 = 0" and x2: "x2 = - 4 / 15" and y1: "y1 = 0" and y2: "y2 = 0"
    using r(3,4,5,6) unfolding B by (simp_all add: index_defs)
  have dx: "dx = 4 / 5" unfolding r(7) x1 x2 by (simp add: scaled_diff_def flush_def)
  have dy: "dy = 0" unfolding r(8) y1 y2 by (simp add: scaled_diff_def flush_def)
  have L: "L = 13 / 15"
    unfolding r(12) dx dy vec_len_def using sqrt_sample by (simp add: flush_def)
  have a: "a = 12 / 13" unfolding r(13) dx L by (simp add: flush_def)
  have b: "b = 0" unfolding r(14) dy L by (simp add: flush_def)
  have c: "c = 5 / 13" unfolding r(15) L by simp
  have e: "to_uint8_clamp (dmul (dadd (dmul (Fin (12 / 13)) (Fin 0.5)) (Fin 0.5)) (Fin 255)) = 245"
      "to_uint8_clamp (dmul (dadd (dmul (Fin 0) (Fin 0.5)) (Fin 0.5)) (Fin 255)) = 128"
      "to_uint8_clamp (dmul (Fin (5 / 13)) (Fin 255)) = 98"
    by (simp_all add: d_ops)
  have p0: "imgData cv ! 0 = 245" using r(18) e(1) unfolding a by simp
  have p1: "imgData cv ! 1 = 128" using r(19) e(2) unfolding b by simp
  have p2: "imgData cv ! 2 = 98" using r(20) e(3) unfolding c by (simp add: eval_nat_numeral)
  have p3: "imgData cv ! 3 = 255" using r(21) by (simp add: eval_nat_numeral)
  have t: "\<bar>sqrt ((12 / 13)\<^sup>2 + 0\<^sup>2 + (5 / 13)\<^sup>2) - 1\<bar> \<le> (1::real) / 1000"
    using r(17) unfolding a b c .
  show ?thesis
    using h r(1) r(2) [unfolded B, symmetric] r(9) [unfolded B dx] r(10) [unfolded B dy] r(11)
      r(16) [unfolded B a b c] t p0 p1 p2 p3
    by blast
qed

text \<open>
  For every positive strength the claim fails, at the two ends of the range of doubles.
  At strength \<open>2^600\<close> the square of \<open>dz = 2^-600\<close> underflows to 0, so on a flat
  height buffer the length is 0 and the vector is \<open>(NaN, NaN, Infinity)\<close>, stored as the
  bytes \<open>(0, 0, 255, 255)\<close>; at strength \<open>2^-600\<close> the square of \<open>dz = 2^600\<close>
  overflows, the length is \<open>Infinity\<close> and the vector is \<open>(0, 0, 0)\<close>.
\<close>

theorem extreme_strength_not_unit:
  "(0::real) < 2 ^ 600 \<and> dz_of (2 ^ 600) = Fin (1 / 2 ^ 600) \<and>
   dmul (dz_of (2 ^ 600)) (dz_of (2 ^ 600)) = Fin 0 \<and>
   normal_vec [Fin 0] 1 1 (2 ^ 600) 0 0 = (NaN, NaN, PInf) \<and>
   (case createNormalMap 1 1 (2 ^ 600) GenericN (initial_state zero_rand) of
      Inl e \<Rightarrow> False
    | Inr (cv, s) \<Rightarrow> imgData cv = [0, 0, 255, 255]) \<and>
   (0::real) < 1 / 2 ^ 600 \<and> dz_of (1 / 2 ^ 600) = Fin (2 ^ 600) \<and>
   dmul (dz_of (1 / 2 ^ 600)) (dz_of (1 / 2 ^ 600)) = PInf \<and>
   normal_vec [Fin 0] 1 1 (1 / 2 ^ 600) 0 0 = (Fin 0, Fin 0, Fin 0)"
proof (intro conjI)
  show "(0::real) < 2 ^ 600" "(0::real) < 1 / 2 ^ 600" by simp_all
  show "dz_of (2 ^ 600) = Fin (1 / 2 ^ 600)" by (simp add: dz_of_def d_ops)
  show "dmul (dz_of (2 ^ 600)) (dz_of (2 ^ 600)) = Fin 0" by (simp add: dz_of_def d_ops)
  show "dz_of (1 / 2 ^ 600) = Fin (2 ^ 600)" by (simp add: dz_of_def d_ops)
  show "dmul (dz_of (1 / 2 ^ 600)) (dz_of (1 / 2 ^ 600)) = PInf" by (simp add: dz_of_def d_ops)
  show "normal_vec [Fin 0] 1 1 (2 ^ 600) 0 0 = (NaN, NaN, PInf)" by (rule flat_normal_vec_huge)
  show "normal_vec [Fin 0] 1 1 (1 / 2 ^ 600) 0 0 = (Fin 0, Fin 0, Fin 0)"
    by (rule flat_normal_vec_tiny)
  obtain cv s1 where cv:
      "createNormalMap 1 1 (2 ^ 600) GenericN (initial_state zero_rand) = Inr (cv, s1)"
      "imgData cv = normal_pixel [Fin 0] 1 1 (2 ^ 600) 0 0 [0, 0, 0, 0]"
    using flat_image [of "2 ^ 600"] by blast
  have "imgData cv = [0, 0, 255, 255]"
    unfolding cv(2) normal_pixel_def flat_normal_vec_huge by (simp add: d_ops)
  then show "case createNormalMap 1 1 (2 ^ 600) GenericN (initial_state zero_rand) of
      Inl e \<Rightarrow> False
    | Inr (cv, s) \<Rightarrow> imgData cv = [0, 0, 255, 255]"
    using cv(1) by simp
qed

text \<open>
  C2 (as amended). The deriver has no floor on the strength: it divides by it as given.
  The depth term \<open>1 / strength\<close> is finite exactly when the strength is not 0 and the
  quotient is below the overflow threshold of doubles. For every strength whose magnitude
  lies between \<open>2^-500\<close> and \<open>2^500\<close> the depth term is the number \<open>1 / strength\<close>,
  the three components \<open>(dx / len, dy / len, dz / len)\<close> of every pixel's vector are
  finite, the three values stored for the pixel are finite numbers, and the bytes written
  are their clamped images, with alpha 255.
\<close>

theorem normal_finite_in_range:
  assumes "1 / 2 ^ 500 \<le> \<bar>strength\<bar>" and "\<bar>strength\<bar> \<le> 2 ^ 500" and "x < w" and "y < h"
  shows "dz_of strength = Fin (1 / strength) \<and>
         (\<forall>k. is_finite (dz_of k) = (k \<noteq> 0 \<and> \<bar>1 / k\<bar> < overflow_bound)) \<and>
         (\<exists>cv s1 B dx dy L a b c r g bl.
            createNormalMap w h strength nt st = Inr (cv, s1) \<and>
            B = fst (height_map w h nt (setup_perm st)) \<and>
            dx_at B w strength x y = Fin dx \<and> dy_at B w h strength x y = Fin dy \<and>
            L = vec_len dx dy (1 / strength) \<and> 0 < L \<and>
            a = flush (dx / L) \<and> b = flush (dy / L) \<and> c = 1 / strength / L \<and>
            normal_vec B w h strength x y = (Fin a, Fin b, Fin c) \<and>
            dmul (dadd (dmul (Fin a) (Fin 0.5)) (Fin 0.5)) (Fin 255) = Fin r \<and>
            dmul (dadd (dmul (Fin b) (Fin 0.5)) (Fin 0.5)) (Fin 255) = Fin g \<and>
            dmul (Fin c) (Fin 255) = Fin bl \<and>
            imgData cv ! ((y * w + x) * 4) = to_uint8_clamp (Fin r) \<and>
            imgData cv ! ((y * w + x) * 4 + 1) = to_uint8_clamp (Fin g) \<and>
            imgData cv ! ((y * w + x) * 4 + 2) = to_uint8_clamp (Fin bl) \<and>
            imgData cv ! ((y * w + x) * 4 + 3) = 255)"
proof (intro conjI allI)
  show "dz_of strength = Fin (1 / strength)"
    by (rule dz_of_in_range(1) [OF assms(1,2)])
  show "is_finite (dz_of k) = (k \<noteq> 0 \<and> \<bar>1 / k\<bar> < overflow_bound)" for k
    by (rule dz_of_finite_iff)
  obtain cv s1 B x1 x2 y1 y2 dx dy L a b c where r:
      "createNormalMap w h strength nt st = Inr (cv, s1)"
      "B = fst (height_map w h nt (setup_perm st))"
      "dx_at B w strength x y = Fin dx" "dy_at B w h strength x y = Fin dy"
      "L = vec_len dx dy (1 / strength)" "0 < L"
      "a = flush (dx / L)" "b = flush (dy / L)" "c = 1 / strength / L"
      "normal_vec B w h strength x y = (Fin a, Fin b, Fin c)"
      "\<bar>sqrt (a\<^sup>2 + b\<^sup>2 + c\<^sup>2) - 1\<bar> \<le> 1 / 1000"
      "imgData cv ! ((y * w + x) * 4) =
        to_uint8_clamp (dmul (dadd (dmul (Fin a) (Fin 0.5)) (Fin 0.5)) (Fin 255))"
      "imgData cv ! ((y * w + x) * 4 + 1) =
        to_uint8_clamp (dmul (dadd (dmul (Fin b) (Fin 0.5)) (Fin 0.5)) (Fin 255))"
      "imgData cv ! ((y * w + x) * 4 + 2) = to_uint8_clamp (dmul (Fin c) (Fin 255))"
      "imgData cv ! ((y * w + x) * 4 + 3) = 255"
    using normal_map_pixel [OF assms, of nt st] by blast
  note bd = unit_component_bound [OF r(11)]
  note fa = stored_finite(1) [OF bd(1)] and fb = stored_finite(1) [OF bd(2)]
    and fc = stored_finite(2) [OF bd(3)]
  have big: "createNormalMap w h strength nt st = Inr (cv, s1) \<and>
            B = fst (height_map w h nt (setup_perm st)) \<and>
            dx_at B w strength x y = Fin dx \<and> dy_at B w h strength x y = Fin dy \<and>
            L = vec_len dx dy (1 / strength) \<and> 0 < L \<and>
            a = flush (dx / L) \<and> b = flush (dy / L) \<and> c = 1 / strength / L \<and>
            normal_vec B w h strength x y = (Fin a, Fin b, Fin c) \<and>
            dmul (dadd (dmul (Fin a) (Fin 0.5)) (Fin 0.5)) (Fin 255) =
              Fin (flush (flush (flush (a * 0.5) + 0.5) * 255)) \<and>
            dmul (dadd (dmul (Fin b) (Fin 0.5)) (Fin 0.5)) (Fin 255) =
              Fin (flush (flush (flush (b * 0.5) + 0.5) * 255)) \<and>
            dmul (Fin c) (Fin 255) = Fin (flush (c * 255)) \<and>
            imgData cv ! ((y * w + x) * 4) =
              to_uint8_clamp (Fin (flush (flush (flush (a * 0.5) + 0.5) * 255))) \<and>
            imgData cv ! ((y * w + x) * 4 + 1) =
              to_uint8_clamp (Fin (flush (flush (flush (b * 0.5) + 0.5) * 255))) \<and>
            imgData cv ! ((y * w + x) * 4 + 2) = to_uint8_clamp (Fin (flush (c * 255))) \<and>
            imgData cv ! ((y * w + x) * 4 + 3) = 255"
    apply (intro conjI)
    apply (rule r(1))
    apply (rule r(2))
    apply (rule r(3))
    apply (rule r(4))
    apply (rule r(5))
    apply (rule r(6))
    apply (rule r(7))
    apply (rule r(8))
    apply (rule r(9))
    apply (rule r(10))
    apply (rule fa)
    apply (rule fb)
    apply (rule fc)
    apply (rule r(12) [unfolded fa])
    apply (rule r(13) [unfolded fb])
    apply (rule r(14) [unfolded fc])
    apply (rule r(15))
    done
  show "\<exists>cv s1 B dx dy L a b c r g bl.
            createNormalMap w h strength nt st = Inr (cv, s1) \<and>
            B = fst (height_map w h nt (setup_perm st)) \<and>
            dx_at B w strength x y = Fin dx \<and> dy_at B w h strength x y = Fin dy \<and>
            L = vec_len dx dy (1 / strength) \<and> 0 < L \<and>
            a = flush (dx / L) \<and> b = flush (dy / L) \<and> c = 1 / strength / L \<and>
            normal_vec B w h strength x y = (Fin a, Fin b, Fin c) \<and>
            dmul (dadd (dmul (Fin a) (Fin 0.5)) (Fin 0.5)) (Fin 255) = Fin r \<and>
            dmul (dadd (dmul (Fin b) (Fin 0.5)) (Fin 0.5)) (Fin 255) = Fin g \<and>
            dmul (Fin c) (Fin 255) = Fin bl \<and>
            imgData cv ! ((y * w + x) * 4) = to_uint8_clamp (Fin r) \<and>
            imgData cv ! ((y * w + x) * 4 + 1) = to_uint8_clamp (Fin g) \<and>
            imgData cv ! ((y * w + x) * 4 + 2) = to_uint8_clamp (Fin bl) \<and>
            imgData cv ! ((y * w + x) * 4 + 3) = 255"
    apply (rule exI [of _ cv])
    apply (rule exI [of _ s1])
    apply (rule exI [of _ B])
    apply (rule exI [of _ dx])
    apply (rule exI [of _ dy])
    apply (rule exI [of _ L])
    apply (rule exI [of _ a])
    apply (rule exI [of _ b])
    apply (rule exI [of _ c])
    apply (rule exI [of _ "flush (flush (flush (a * 0.5) + 0.5) * 255)"])
    apply (rule exI [of _ "flush (flush (flush (b * 0.5) + 0.5) * 255)"])
    apply (rule exI [of _ "flush (c * 255)"])
    apply (rule big)
    done
qed

theorem normal_finite_in_range_witness:
  "(1::real) / 2 ^ 500 \<le> \<bar>5 / 4\<bar> \<and> \<bar>5 / 4 :: real\<bar> \<le> 2 ^ 500 \<and> (2::nat) < 4 \<and> (0::nat) < 1 \<and>
   dz_of (5 / 4) = Fin (4 / 5) \<and> is_finite (dz_of (5 / 4)) \<and> \<not> is_finite (dz_of 0) \<and>
   (\<exists>cv s1. createNormalMap 4 1 (5 / 4) GenericN (initial_state edge_rand) = Inr (cv, s1) \<and>
      fst (height_map 4 1 GenericN (setup_perm (initial_state edge_rand))) =
        [Fin 0, Fin (- 4 / 15), Fin 0, Fin 0] \<and>
      dx_at [Fin 0, Fin (- 4 / 15), Fin 0, Fin 0] 4 (5 / 4) 2 0 = Fin (- 1 / 3) \<and>
      dy_at [Fin 0, Fin (- 4 / 15), Fin 0, Fin 0] 4 1 (5 / 4) 2 0 = Fin 0 \<and>
      normal_vec [Fin 0, Fin (- 4 / 15), Fin 0, Fin 0] 4 1 (5 / 4) 2 0 =
        (Fin (- 5 / 13), Fin 0, Fin (12 / 13)) \<and>
      dmul (dadd (dmul (Fin (- 5 / 13)) (Fin 0.5)) (Fin 0.5)) (Fin 255) = Fin (1020 / 13) \<and>
      dmul (Fin (12 / 13)) (Fin 255) = Fin (3060 / 13) \<and>
      imgData cv ! 8 = 78 \<and> imgData cv ! 9 = 128 \<and> imgData cv ! 10 = 235 \<and>
      imgData cv ! 11 = 255)"
proof -
  have h: "(1::real) / 2 ^ 500 \<le> \<bar>5 / 4\<bar>" "\<bar>5 / 4 :: real\<bar> \<le> 2 ^ 500" "(2::nat) < 4" "(0::nat) < 1"
    by simp_all
  note th = normal_finite_in_range [OF h, of GenericN "initial_state edge_rand"]
  note th1 = th [THEN conjunct1] and th2 = th [THEN conjunct2, THEN conjunct1]
    and th3 = th [THEN conjunct2, THEN conjunct2]
  have dz: "dz_of (5 / 4) = Fin (4 / 5)" using th1 by simp
  have fin: "is_finite (dz_of (5 / 4))" "\<not> is_finite (dz_of 0)"
    using th2 [THEN spec, of "5 / 4"] th2 [THEN spec, of 0] by (simp_all add: overflow_bound_def)
  obtain cv s1 B dx dy L a b c r g bl where r:
      "createNormalMap 4 1 (5 / 4) GenericN (initial_state edge_rand) = Inr (cv, s1)"
      "B = fst (height_map 4 1 GenericN (setup_perm (initial_state edge_rand)))"
      "dx_at B 4 (5 / 4) 2 0 = Fin dx" "dy_at B 4 1 (5 / 4) 2 0 = Fin dy"
      "L = vec_len dx dy (1 / (5 / 4))"
      "a = flush (dx / L)" "b = flush (dy / L)" "c = 1 / (5 / 4) / L"
      "normal_vec B 4 1 (5 / 4) 2 0 = (Fin a, Fin b, Fin c)"
      "dmul (dadd (dmul (Fin a) (Fin 0.5)) (Fin 0.5)) (Fin 255) = Fin r"
      "dmul (dadd (dmul (Fin b) (Fin 0.5)) (Fin 0.5)) (Fin 255) = Fin g"
      "dmul (Fin c) (Fin 255) = Fin bl"
      "imgData cv ! ((0 * 4 + 2) * 4) = to_uint8_clamp (Fin r)"
      "imgData cv ! ((0 * 4 + 2) * 4 + 1) = to_uint8_clamp (Fin g)"
      "imgData cv ! ((0 * 4 + 2) * 4 + 2) = to_uint8_clamp (Fin bl)"
      "imgData cv ! ((0 * 4 + 2) * 4 + 3) = 255"
    using th3 by blast
  have B: "B = [Fin 0, Fin (- 4 / 15), Fin 0, Fin 0]"
    unfolding r(2) by (rule height_map_sample)
  have dxv: "dx_at [Fin 0, Fin (- 4 / 15), Fin 0, Fin 0] 4 (5 / 4) 2 0 = Fin (- 1 / 3)"
    by (simp add: dx_at_def index_defs f32_read_def d_ops)
  have dyv: "dy_at [Fin 0, Fin (- 4 / 15), Fin 0, Fin 0] 4 1 (5 / 4) 2 0 = Fin 0"
    by (simp add: dy_at_def index_defs f32_read_def d_ops)
  have dx: "dx = - 1 / 3" using r(3) unfolding B dxv by simp
  have dy: "dy = 0" using r(4) unfolding B dyv by simp
  have L: "L = 13 / 15"
    unfolding r(5) dx dy vec_len_def using sqrt_sample by (simp add: flush_def)
  have a: "a = - 5 / 13" unfolding r(6) dx L by (simp add: flush_def)
  have b: "b = 0" unfolding r(7) dy L by (simp add: flush_def)
  have c: "c = 12 / 13" unfolding r(8) L by simp
  have e: "dmul (dadd (dmul (Fin (- 5 / 13)) (Fin 0.5)) (Fin 0.5)) (Fin 255) = Fin (1020 / 13)"
      "dmul (dadd (dmul (Fin 0) (Fin 0.5)) (Fin 0.5)) (Fin 255) = Fin (255 / 2)"
      "dmul (Fin (12 / 13)) (Fin 255) = Fin (3060 / 13)"
    by (simp_all add: d_ops)
  have rv: "r = 1020 / 13" using r(10) unfolding a e by simp
  have gv: "g = 255 / 2" using r(11) unfolding b e by simp
  have bv: "bl = 3060 / 13" using r(12) unfolding c e by simp
  have p0: "imgData cv ! 8 = 78" using r(13) unfolding rv by simp
  have p1: "imgData cv ! 9 = 128" using r(14) unfolding gv by simp
  have p2: "imgData cv ! 10 = 235" using r(15) unfolding bv by simp
  have p3: "imgData cv ! 11 = 255" using r(16) by simp
  show ?thesis
    using h dz fin r(1) r(2) [unfolded B, symmetric] dxv dyv r(9) [unfolded B a b c] e(1,3)
      p0 p1 p2 p3
    by blast
qed

text \<open>
  The claim as stated fails at strength 0: the depth term is \<open>Infinity\<close>, so is the
  length, and the third component is \<open>Infinity / Infinity\<close>, that is NaN; the store into
  the image data turns it into the byte 0. A strength other than 0 can overflow as well:
  at \<open>2^-1030\<close> the depth term is \<open>Infinity\<close>.
\<close>

theorem zero_strength_unguarded:
  "dz_of 0 = PInf \<and> normal_vec [Fin 0] 1 1 0 0 0 = (Fin 0, Fin 0, NaN) \<and>
   (case createNormalMap 1 1 0 GenericN (initial_state zero_rand) of
      Inl e \<Rightarrow> False
    | Inr (cv, s) \<Rightarrow> imgData cv = [128, 128, 0, 255]) \<and>
   dz_of (1 / 2 ^ 1030) = PInf"
proof (intro conjI)
  show "dz_of 0 = PInf" by (simp add: dz_of_def ddiv_def)
  show "normal_vec [Fin 0] 1 1 0 0 0 = (Fin 0, Fin 0, NaN)" by (rule flat_normal_vec)
  show "dz_of (1 / 2 ^ 1030) = PInf" by (simp add: dz_of_def d_ops)
  obtain cv s1 where cv: "createNormalMap 1 1 0 GenericN (initial_state zero_rand) = Inr (cv, s1)"
      "imgData cv = normal_pixel [Fin 0] 1 1 0 0 0 [0, 0, 0, 0]"
    using flat_image [of 0] by blast
  have "imgData cv = [128, 128, 0, 255]"
    unfolding cv(2) using flat_normal_vec by (simp add: normal_pixel_def d_ops)
  then show "case createNormalMap 1 1 0 GenericN (initial_state zero_rand) of
      Inl e \<Rightarrow> False
    | Inr (cv, s) \<Rightarrow> imgData cv = [128, 128, 0, 255]"
    using cv(1) by simp
qed

section \<open>The ease curve\<close>

lemma fade_poly: "fade t = quintic t"
  by (simp add: fade_def quintic_def power_numeral_reduce algebra_simps)

lemma plus_ix_plus: "plus_ix (plus_ix a n) m = plus_ix a (n + m)"
  by (cases a) (simp_all add: plus_ix_def)

lemma plus_ix_zero: "plus_ix a 0 = a"
  by (cases a) (simp_all add: plus_ix_def)

text \<open>
  C9. The ease curve applied to each fractional coordinate inside the noise primitive is
  the quintic \<open>6 t^5 - 15 t^4 + 10 t^3\<close>: \<open>fade\<close> computes this polynomial for every
  \<open>t\<close>, and \<open>noise3\<close> blends the contributions of the eight corners of the lattice
  cell with the quintic of the fractional parts of \<open>x\<close>, \<open>y\<close> and \<open>z\<close> as the
  interpolation weights.
\<close>

theorem noise_quintic_weights:
  "fade t = 6 * t ^ 5 - 15 * t ^ 4 + 10 * t ^ 3 \<and>
   noise3 p x y z =
     lerp (quintic (frac z))
       (lerp (quintic (frac y))
          (lerp (quintic (frac x)) (corner p x y z 0 0 0) (corner p x y z 1 0 0))
          (lerp (quintic (frac x)) (corner p x y z 0 1 0) (corner p x y z 1 1 0)))
       (lerp (quintic (frac y))
          (lerp (quintic (frac x)) (corner p x y z 0 0 1) (corner p x y z 1 0 1))
          (lerp (quintic (frac x)) (corner p x y z 0 1 1) (corner p x y z 1 1 1))) \<and>
   quintic (frac x) = 6 * frac x ^ 5 - 15 * frac x ^ 4 + 10 * frac x ^ 3"
proof (intro conjI)
  show "fade t = 6 * t ^ 5 - 15 * t ^ 4 + 10 * t ^ 3"
    unfolding fade_poly by (rule quintic_def)
  show "quintic (frac x) = 6 * frac x ^ 5 - 15 * frac x ^ 4 + 10 * frac x ^ 3"
    by (rule quintic_def)
  show "noise3 p x y z =
     lerp (quintic (frac z))
       (lerp (quintic (frac y))
          (lerp (quintic (frac x)) (corner p x y z 0 0 0) (corner p x y z 1 0 0))
          (lerp (quintic (frac x)) (corner p x y z 0 1 0) (corner p x y z 1 1 0)))
       (lerp (quintic (frac y))
          (lerp (quintic (frac x)) (corner p x y z 0 0 1) (corner p x y z 1 0 1))
          (lerp (quintic (frac x)) (corner p x y z 0 1 1) (corner p x y z 1 1 1)))"
    unfolding noise3_def Let_def corner_def fade_poly plus_ix_plus
    by (simp add: frac_def plus_ix_zero)
qed

end
